theory Spec2Isabelle
  imports Complex_Main "HOL-Library.Char_ord" "HOL-Library.List_Lexorder" "HOL-Library.Sublist"
begin

section \<open>The in-process task dispatcher (workflows/async\_dispatcher.py)\<close>

text \<open>
  The dispatcher owns a bounded FIFO queue of envelopes, a store of task states and a
  pool of workers. Everything a worker does to a task happens in one pass of its loop
  body: take an envelope, mark the state \<open>running\<close>, call the callable, record how the
  call ended and perhaps put the envelope back. The model runs these passes one after
  the other, the way one worker does, and no submission arrives in the middle of a
  pass: the envelope a pass puts back finds the place in the queue that the pass
  itself made free. (A pass suspends only while it awaits the callable; a callable
  that raises without awaiting anything gives other coroutines no chance to run.) A
  pass of another worker touches only the state of the task it holds.

  A callable is \<open>Callable[..., Any]\<close>: it may answer differently each time it is
  called. It is modelled by the outcome of its i-th call (counting from 0). A call
  either raises an \<open>Exception\<close> (the class the worker catches) or returns a payload;
  a payload may itself be an exception object, which the worker's \<open>isinstance\<close> test
  does not tell apart from a raised one.
\<close>

type_synonym timestamp = rat
type_synonym metadata = "(string \<times> string) list"

datatype payload = ExceptionObj string | Plain string

datatype outcome = Raised string | Returned payload

datatype task_status = Queued | Running | Retrying | Completed | Failed

record task_state =
  status :: task_status
  result :: "payload option"
  error :: "string option"
  attempts :: int
  max_retries :: int
  queued_at :: timestamp
  started_at :: "timestamp option"
  finished_at :: "timestamp option"
  metadata :: "metadata option"

record envelope =
  task_id :: string
  func :: "nat \<Rightarrow> outcome"
  retries :: int
  env_metadata :: "metadata option"

text \<open>
  \<open>queue\<close> holds envelopes and the sentinel \<open>None\<close> that \<open>stop\<close> pushes;
  \<open>maxsize\<close> is the capacity given to \<open>asyncio.Queue\<close> (zero or less: unbounded).
  \<open>invocations\<close> is not a field of the source: it logs the task id of every call of a
  callable, so that "how often was it called" can be stated. \<open>ticks\<close> counts the
  readings of \<open>time.time()\<close>, which is the parameter \<open>clock\<close> below.
\<close>

record dispatcher =
  queue :: "envelope option list"
  maxsize :: int
  states :: "string \<rightharpoonup> task_state"
  running :: bool
  invocations :: "string list"
  ticks :: nat

definition full :: "dispatcher \<Rightarrow> bool" where
  "full d \<longleftrightarrow> maxsize d > 0 \<and> int (length (queue d)) \<ge> maxsize d"

text \<open>\<open>put\<close> on a full queue suspends the caller: \<open>None\<close>.\<close>

definition put :: "dispatcher \<Rightarrow> envelope option \<Rightarrow> dispatcher option" where
  "put d item = (if full d then None else Some (d\<lparr>queue := queue d @ [item]\<rparr>))"

definition new_task_state :: "int \<Rightarrow> metadata option \<Rightarrow> timestamp \<Rightarrow> task_state" where
  "new_task_state r md now =
     \<lparr>status = Queued, result = None, error = None, attempts = 0, max_retries = r,
      queued_at = now, started_at = None, finished_at = None, metadata = md\<rparr>"

text \<open>
  \<open>submit\<close>: the fresh identifier \<open>uuid4()\<close> is the parameter \<open>tid\<close>. The state is
  stored first; then the envelope is put on the queue. When the queue is full the call
  has not returned yet (\<open>Suspended\<close>), but the state is already in the store.
\<close>

datatype submit_result = Submitted string dispatcher | Suspended dispatcher

definition submit ::
  "(nat \<Rightarrow> timestamp) \<Rightarrow> dispatcher \<Rightarrow> (nat \<Rightarrow> outcome) \<Rightarrow> int \<Rightarrow> metadata option \<Rightarrow> string
     \<Rightarrow> submit_result" where
  "submit clock d f r md tid =
     (let env = \<lparr>task_id = tid, func = f, retries = max 0 r, env_metadata = md\<rparr>;
          d1 = d\<lparr>states := (states d)(tid \<mapsto> new_task_state (retries env) md (clock (ticks d))),
                 ticks := Suc (ticks d)\<rparr>
      in case put d1 (Some env) of
           None \<Rightarrow> Suspended d1
         | Some d2 \<Rightarrow> Submitted tid d2)"

text \<open>\<open>result\<close>: the stored state as a snapshot (\<open>to_dict\<close> copies every field), or \<open>None\<close>.\<close>

definition task_result :: "dispatcher \<Rightarrow> string \<Rightarrow> task_state option" where
  "task_result d tid = states d tid"

text \<open>The first critical section of the worker's loop body (lines 123 to 130).\<close>

definition mark_running :: "(nat \<Rightarrow> timestamp) \<Rightarrow> dispatcher \<Rightarrow> envelope \<Rightarrow> dispatcher" where
  "mark_running clock d env =
     (case states d (task_id env) of
        None \<Rightarrow> d
      | Some st \<Rightarrow>
          d\<lparr>states := (states d)(task_id env \<mapsto>
               st\<lparr>status := Running,
                  started_at := Some (clock (ticks d)),
                  attempts := attempts st + 1,
                  metadata := (if metadata st = None \<and> env_metadata env \<noteq> None
                               then env_metadata env else metadata st)\<rparr>),
            ticks := Suc (ticks d)\<rparr>)"

text \<open>
  \<open>_execute\<close> inside the worker's \<open>try\<close>: the callable is called once (logged in
  \<open>invocations\<close>); a raised exception becomes the value of \<open>result\<close>.
\<close>

definition execute :: "dispatcher \<Rightarrow> envelope \<Rightarrow> payload \<times> dispatcher" where
  "execute d env =
     (let i = count_list (invocations d) (task_id env);
          res = (case func env i of Raised msg \<Rightarrow> ExceptionObj msg | Returned v \<Rightarrow> v)
      in (res, d\<lparr>invocations := invocations d @ [task_id env]\<rparr>))"

fun is_exception :: "payload \<Rightarrow> bool" where
  "is_exception (ExceptionObj _) = True"
| "is_exception (Plain _) = False"

fun str_of :: "payload \<Rightarrow> string" where
  "str_of (ExceptionObj msg) = msg"
| "str_of (Plain s) = s"

text \<open>
  The second critical section (lines 138 to 158). \<open>finished_at\<close> is written before
  the branch on the result. When the queue is full the worker is suspended in \<open>put\<close>,
  with the state already set to \<open>retrying\<close>. A task id with no state ends the pass
  (\<open>continue\<close>).
\<close>

datatype pass_result = Finished dispatcher | Suspended_in_put dispatcher

definition record_outcome ::
  "(nat \<Rightarrow> timestamp) \<Rightarrow> dispatcher \<Rightarrow> envelope \<Rightarrow> payload \<Rightarrow> pass_result" where
  "record_outcome clock d env res =
     (case states d (task_id env) of
        None \<Rightarrow> Finished d
      | Some st0 \<Rightarrow>
          (let st = st0\<lparr>finished_at := Some (clock (ticks d))\<rparr>;
               d1 = d\<lparr>ticks := Suc (ticks d)\<rparr>
           in if is_exception res then
                (let st1 = st\<lparr>error := Some (str_of res)\<rparr>
                 in if attempts st1 \<le> retries env
                    then (let d2 = d1\<lparr>states := (states d1)(task_id env \<mapsto> st1\<lparr>status := Retrying\<rparr>)\<rparr>
                          in case put d2 (Some env) of
                               None \<Rightarrow> Suspended_in_put d2
                             | Some d3 \<Rightarrow> Finished d3)
                    else Finished (d1\<lparr>states := (states d1)(task_id env \<mapsto> st1\<lparr>status := Failed\<rparr>)\<rparr>))
              else Finished (d1\<lparr>states := (states d1)(task_id env \<mapsto>
                                  st\<lparr>status := Completed, result := Some res\<rparr>)\<rparr>)))"

text \<open>One pass of the loop body for an envelope already taken from the queue.\<close>

definition worker_body :: "(nat \<Rightarrow> timestamp) \<Rightarrow> dispatcher \<Rightarrow> envelope \<Rightarrow> pass_result" where
  "worker_body clock d env =
     (let d1 = mark_running clock d env;
          (res, d2) = execute d1 env
      in record_outcome clock d2 env res)"

text \<open>
  What is left to do for the queue: one pass for each entry, and for an envelope one
  more for each attempt its budget still allows. Every pass makes it smaller.
\<close>

definition work_of :: "(string \<rightharpoonup> task_state) \<Rightarrow> envelope option \<Rightarrow> nat" where
  "work_of sts item =
     (case item of
        None \<Rightarrow> 1
      | Some env \<Rightarrow>
          1 + nat (retries env + 1 - (case sts (task_id env) of None \<Rightarrow> 0 | Some st \<Rightarrow> attempts st)))"

definition pending_work :: "dispatcher \<Rightarrow> nat" where
  "pending_work d = sum_list (map (work_of (states d)) (queue d))"

text \<open>
  The worker loop, run until the worker leaves it or has to wait: \<open>Stopped\<close> when
  \<open>_running\<close> is false or the sentinel arrives, \<open>Waiting\<close> when the queue is empty
  (\<open>get\<close> suspends), \<open>Blocked\<close> when the worker is suspended in \<open>put\<close>.
\<close>

datatype worker_exit = Stopped | Waiting | Blocked

function worker_loop :: "(nat \<Rightarrow> timestamp) \<Rightarrow> dispatcher \<Rightarrow> worker_exit \<times> dispatcher" where
  "worker_loop clock d =
     (if \<not> running d then (Stopped, d)
      else case queue d of
             [] \<Rightarrow> (Waiting, d)
           | None # q \<Rightarrow> (Stopped, d\<lparr>queue := q\<rparr>)
           | Some env # q \<Rightarrow>
               (case worker_body clock (d\<lparr>queue := q\<rparr>) env of
                  Suspended_in_put d' \<Rightarrow> (Blocked, d')
                | Finished d' \<Rightarrow> worker_loop clock d'))"
  by pat_completeness auto
termination
proof (relation "measure (\<lambda>(clock, d). pending_work d)")
  show "wf (measure (\<lambda>(clock, d). pending_work d))" by simp
next
  fix clock :: "nat \<Rightarrow> timestamp" and d :: dispatcher and item q env d'
  assume q0: "queue d = item # q" and item: "item = Some env"
    and body: "worker_body clock (d\<lparr>queue := q\<rparr>) env = Finished d'"
  from q0 item have q: "queue d = Some env # q" by simp
  have mono: "work_of sts' item \<le> work_of (states d) item"
    if "\<And>st. states d (task_id env) = Some st \<Longrightarrow>
          \<exists>st'. sts' (task_id env) = Some st' \<and> attempts st \<le> attempts st'"
       "\<And>k. k \<noteq> task_id env \<Longrightarrow> sts' k = states d k"
       "states d (task_id env) = None \<Longrightarrow> sts' (task_id env) = None"
    for sts' item
  proof (cases item)
    case None
    then show ?thesis by (simp add: work_of_def)
  next
    case (Some e)
    show ?thesis
    proof (cases "task_id e = task_id env")
      case False
      with Some that(2) show ?thesis by (simp add: work_of_def)
    next
      case True
      show ?thesis
      proof (cases "states d (task_id env)")
        case None
        with True Some that(3) show ?thesis by (simp add: work_of_def)
      next
        case (Some st)
        with that(1) obtain st' where "sts' (task_id env) = Some st'" "attempts st \<le> attempts st'"
          by blast
        with True Some \<open>item = Some e\<close> show ?thesis by (simp add: work_of_def)
      qed
    qed
  qed
  have sum_mono: "sum_list (map (work_of sts') xs) \<le> sum_list (map (work_of (states d)) xs)"
    if "\<And>st. states d (task_id env) = Some st \<Longrightarrow>
          \<exists>st'. sts' (task_id env) = Some st' \<and> attempts st \<le> attempts st'"
       "\<And>k. k \<noteq> task_id env \<Longrightarrow> sts' k = states d k"
       "states d (task_id env) = None \<Longrightarrow> sts' (task_id env) = None"
    for sts' xs
    by (rule sum_list_mono) (rule mono [OF that])
  have before: "pending_work d = work_of (states d) (Some env) + sum_list (map (work_of (states d)) q)"
    by (simp add: pending_work_def q)
  show "((clock, d'), (clock, d)) \<in> measure (\<lambda>(clock, d). pending_work d)"
  proof (cases "states d (task_id env)")
    case None
    with body have "d' = d\<lparr>queue := q, invocations := invocations d @ [task_id env]\<rparr>"
      by (simp add: worker_body_def mark_running_def execute_def record_outcome_def Let_def)
    then have "pending_work d' = sum_list (map (work_of (states d)) q)"
      by (simp add: pending_work_def)
    with before show ?thesis by (simp add: work_of_def)
  next
    case (Some st)
    have shape: "queue d' = q \<or>
        (queue d' = q @ [Some env] \<and> attempts st + 1 \<le> retries env)"
      and sts: "\<exists>st'. states d' (task_id env) = Some st' \<and> attempts st' = attempts st + 1"
      and others: "\<And>k. k \<noteq> task_id env \<Longrightarrow> states d' k = states d k"
      using body Some
      by (auto simp: worker_body_def mark_running_def execute_def record_outcome_def Let_def put_def
            split: if_splits option.splits)
    from sts obtain st' where st': "states d' (task_id env) = Some st'" "attempts st' = attempts st + 1"
      by blast
    have le: "sum_list (map (work_of (states d')) q) \<le> sum_list (map (work_of (states d)) q)"
      by (rule sum_mono) (use Some st' others in auto)
    from shape show ?thesis
    proof
      assume "queue d' = q"
      then have "pending_work d' = sum_list (map (work_of (states d')) q)"
        by (simp add: pending_work_def)
      with le before show ?thesis by (simp add: work_of_def)
    next
      assume a: "queue d' = q @ [Some env] \<and> attempts st + 1 \<le> retries env"
      then have "pending_work d' = sum_list (map (work_of (states d')) q) + work_of (states d') (Some env)"
        by (simp add: pending_work_def)
      moreover have "work_of (states d') (Some env) < work_of (states d) (Some env)"
        using a st' Some by (simp add: work_of_def)
      ultimately show ?thesis using le before by simp
    qed
  qed
qed


declare worker_loop.simps [simp del]

text \<open>The value of \<open>result\<close> after the \<open>try\<close> of a pass that starts in \<open>d\<close>.\<close>

definition call_result :: "dispatcher \<Rightarrow> envelope \<Rightarrow> payload" where
  "call_result d env = fst (execute d env)"

text \<open>
  A call succeeds, in the worker's eyes, when what it hands back is not an exception:
  the call returned, and the value returned is no \<open>Exception\<close> instance.
\<close>

fun succeeds :: "outcome \<Rightarrow> bool" where
  "succeeds (Raised _) = False"
| "succeeds (Returned v) = (\<not> is_exception v)"

fun ids_of :: "envelope option list \<Rightarrow> string list" where
  "ids_of [] = []"
| "ids_of (None # q) = ids_of q"
| "ids_of (Some env # q) = task_id env # ids_of q"

fun dispatcher_of :: "submit_result \<Rightarrow> dispatcher" where
  "dispatcher_of (Submitted _ d) = d"
| "dispatcher_of (Suspended d) = d"

fun after_pass :: "pass_result \<Rightarrow> dispatcher" where
  "after_pass (Finished d) = d"
| "after_pass (Suspended_in_put d) = d"

text \<open>
  \<open>settles f r K S\<close>: a callable \<open>f\<close> with budget \<open>r\<close> is done after its \<open>K\<close>-th call,
  in status \<open>S\<close>: no earlier call succeeds, and the \<open>K\<close>-th either succeeds or is the
  last one the budget allows.
\<close>

definition settles :: "(nat \<Rightarrow> outcome) \<Rightarrow> int \<Rightarrow> int \<Rightarrow> task_status \<Rightarrow> bool" where
  "settles f r K S \<longleftrightarrow>
     1 \<le> K \<and> K \<le> r + 1 \<and> (\<forall>i. int i < K - 1 \<longrightarrow> \<not> succeeds (f i)) \<and>
     (if succeeds (f (nat (K - 1))) then S = Completed else K = r + 1 \<and> S = Failed)"

text \<open>
  The invariant of the worker loop for one task: the worker is running, no sentinel is
  queued, the queue is within its capacity, the callable has been called as often as
  \<open>attempts\<close> says, and the task is either still due (its one envelope is queued) or
  done after \<open>K\<close> attempts in status \<open>S\<close>.
\<close>

definition task_inv :: "string \<Rightarrow> envelope \<Rightarrow> int \<Rightarrow> task_status \<Rightarrow> dispatcher \<Rightarrow> bool" where
  "task_inv tid env K S d \<longleftrightarrow>
     running d \<and> None \<notin> set (queue d) \<and> (maxsize d \<le> 0 \<or> int (length (queue d)) \<le> maxsize d) \<and>
     (\<exists>st. states d tid = Some st \<and> int (count_list (invocations d) tid) = attempts st \<and>
        (if attempts st < K
         then count_list (ids_of (queue d)) tid = 1 \<and>
              (\<forall>e. Some e \<in> set (queue d) \<longrightarrow> task_id e = tid \<longrightarrow> e = env)
         else attempts st = K \<and> tid \<notin> set (ids_of (queue d)) \<and> status st = S))"

text \<open>Concrete inputs for the examples: an idle dispatcher and three callables.\<close>

definition clock0 :: "nat \<Rightarrow> timestamp" where
  "clock0 n = of_nat n"

definition idle_dispatcher :: dispatcher where
  "idle_dispatcher =
     \<lparr>queue = [], maxsize = 100, states = Map.empty, running = True, invocations = [], ticks = 0\<rparr>"

definition always_raises :: "nat \<Rightarrow> outcome" where
  "always_raises i = Raised ''boom''"

definition third_time_lucky :: "nat \<Rightarrow> outcome" where
  "third_time_lucky i = (if i < 2 then Raised ''boom'' else Returned (Plain ''ok''))"


section \<open>The agent registry (agents/registry.py)\<close>

text \<open>
  The registry is filled by \<open>register_agents\<close> from the fixed table \<open>_AGENT_PATHS\<close>,
  the environment variable \<open>POSEIDON_DISABLE_AGENTS\<close> and the \<open>enabled_modules\<close> list of
  the feature flags. \<open>factories\<close> are the keys of \<open>_factories\<close> in insertion order;
  \<open>enabled\<close> is the set \<open>_enabled\<close>, kept as a list whose order nothing reads.
\<close>

datatype py_error =
    RuntimeError string | ValueError string | TypeError string | AttributeError string | KeyError string

record registry =
  factories :: "string list"
  enabled :: "string list"

definition agent_paths :: "string list" where
  "agent_paths = [''sales'', ''purchasing'', ''logistics'', ''manufacturing'', ''accounting'',
                  ''inference'', ''communications'']"

definition register_agents :: "bool \<Rightarrow> string list \<Rightarrow> registry" where
  "register_agents disable_agents flags =
     (if disable_agents then \<lparr>factories = [], enabled = []\<rparr>
      else \<lparr>factories = agent_paths,
            enabled = (if flags \<noteq> [] then filter (\<lambda>m. m \<in> set agent_paths) flags else agent_paths)\<rparr>)"

definition get_available_modules :: "registry \<Rightarrow> string set" where
  "get_available_modules r = set (factories r)"

definition get_enabled_modules :: "registry \<Rightarrow> string set" where
  "get_enabled_modules r = set (enabled r)"

text \<open>A name between single quotation marks, as the messages of the source show it.\<close>

definition quoted :: "string \<Rightarrow> string" where
  "quoted s = CHR 0x27 # s @ [CHR 0x27]"

text \<open>
  \<open>get_agent\<close> up to the call of the factory: the two lookups that raise \<open>ValueError\<close>.
\<close>

definition get_agent :: "registry \<Rightarrow> string \<Rightarrow> py_error + unit" where
  "get_agent r name =
     (if name \<notin> set (factories r) then Inl (ValueError (''Agent '' @ quoted name @ '' not registered''))
      else if name \<notin> set (enabled r) then Inl (ValueError (''Agent '' @ quoted name @ '' is disabled in feature flags''))
      else Inr ())"

section \<open>The module resolver (workflows/hierarchical\_graph.py)\<close>

subsection \<open>String operations\<close>

text \<open>
  Strings are lists of characters with code points below 256. \<open>lower\<close> maps the
  letters A to Z as \<open>str.lower\<close> does on ASCII text; \<open>strip\<close> removes leading and
  trailing white space; \<open>count_sub sub text\<close> is \<open>text.count(sub)\<close>, the number of
  occurrences that do not overlap, found from the left.
\<close>

definition lower_char :: "char \<Rightarrow> char" where
  "lower_char c =
     (case map_of (zip ''ABCDEFGHIJKLMNOPQRSTUVWXYZ'' ''abcdefghijklmnopqrstuvwxyz'') c of
        Some l \<Rightarrow> l
      | None \<Rightarrow> c)"

definition lower :: "string \<Rightarrow> string" where
  "lower s = map lower_char s"

definition is_space :: "char \<Rightarrow> bool" where
  "is_space c \<longleftrightarrow>
     c \<in> set [CHR 0x09, CHR 0x0A, CHR 0x0B, CHR 0x0C, CHR 0x0D, CHR 0x1C, CHR 0x1D, CHR 0x1E,
              CHR 0x1F, CHR 0x20, CHR 0x85, CHR 0xA0]"

definition strip :: "string \<Rightarrow> string" where
  "strip s = rev (dropWhile is_space (rev (dropWhile is_space s)))"

fun count_sub :: "string \<Rightarrow> string \<Rightarrow> nat" where
  "count_sub sub [] = (if sub = [] then 1 else 0)"
| "count_sub sub (c # cs) =
     (if sub = [] then Suc (count_sub sub cs)
      else if prefix sub (c # cs) then Suc (count_sub sub (drop (length sub - 1) cs))
      else count_sub sub cs)"

subsection \<open>Keyword table and inference\<close>

text \<open>\<open>_MODULE_HINTS\<close>, in the order of the source (the order \<open>items()\<close> yields).\<close>

definition module_hints :: "(string \<times> string list) list" where
  "module_hints =
     [(''sales'', [''sale'', ''revenue'', ''customer'', ''upsell'', ''pipeline'', ''quote'', ''margin'', ''order'']),
      (''purchasing'', [''purchase'', ''supplier'', ''procure'', ''po'', ''vendor'', ''sourcing'', ''buy'']),
      (''logistics'', [''inventory'', ''logistic'', ''stock'', ''warehouse'', ''shipping'', ''delivery'',
                       ''fulfillment'', ''transport'']),
      (''manufacturing'', [''production'', ''manufactur'', ''bom'', ''work order'', ''assembly'', ''factory'',
                           ''line'']),
      (''accounting'', [''invoice'', ''journal'', ''ledger'', ''ap '', ''ar '', ''expense'', ''financial'',
                        ''reconcile'']),
      (''communications'', [''email'', ''notify'', ''escalate'', ''message'', ''alert'', ''contact'',
                            ''outreach'']),
      (''inference'', [''recommend'', ''inference'', ''predict'', ''scenario'', ''forecast'', ''risk'',
                       ''opportunity''])]"

text \<open>\<open>sum(text.count(hint) for hint in hints if hint)\<close>\<close>

definition hint_count :: "string \<Rightarrow> string list \<Rightarrow> nat" where
  "hint_count text hints = sum_list (map (\<lambda>hint. count_sub hint text) (filter (\<lambda>hint. hint \<noteq> []) hints))"

text \<open>
  The dictionary \<open>scores\<close>, as the list of its items in insertion order: the modules
  of the table that are registered and have a count other than zero.
\<close>

definition scores_of :: "registry \<Rightarrow> string \<Rightarrow> (string \<times> nat) list" where
  "scores_of r text =
     map (\<lambda>(name, hints). (name, hint_count text hints))
       (filter (\<lambda>(name, hints). name \<in> get_available_modules r \<and> hint_count text hints \<noteq> 0)
          module_hints)"

text \<open>\<open>max(items, key=...)\<close> keeps the first item whose key is greatest.\<close>

fun max_by_count :: "(string \<times> nat) \<Rightarrow> (string \<times> nat) list \<Rightarrow> (string \<times> nat)" where
  "max_by_count best [] = best"
| "max_by_count best (item # items) =
     max_by_count (if snd item > snd best then item else best) items"

definition infer_module :: "registry \<Rightarrow> string \<Rightarrow> string option" where
  "infer_module r prompt =
     (let text = lower prompt
      in if strip text = [] then None
         else case scores_of r text of
                [] \<Rightarrow> None
              | item # items \<Rightarrow> Some (fst (max_by_count item items)))"

subsection \<open>Enabled modules, the default module, resolution\<close>

text \<open>
  \<open>flags\<close> is what \<open>get_enabled_modules()\<close> of the configuration loader returns now
  (the strings of \<open>enabled_modules\<close> in the feature flags).
\<close>

definition is_module_enabled :: "registry \<Rightarrow> string list \<Rightarrow> string \<Rightarrow> bool" where
  "is_module_enabled r flags name =
     (if get_enabled_modules r \<noteq> {} then name \<in> get_enabled_modules r
      else if set flags \<noteq> {} then name \<in> set flags
      else name \<in> get_available_modules r)"

text \<open>\<open>sorted(xs)[0]\<close> for a collection known not to be empty.\<close>

definition sorted_first :: "string list \<Rightarrow> string" where
  "sorted_first xs = hd (sort xs)"

definition default_module :: "registry \<Rightarrow> py_error + string" where
  "default_module r =
     (if get_enabled_modules r \<noteq> {} then
        (if ''inference'' \<in> get_enabled_modules r then Inr ''inference''
         else Inr (sorted_first (enabled r)))
      else if get_available_modules r \<noteq> {} then
        (if ''inference'' \<in> get_available_modules r then Inr ''inference''
         else Inr (sorted_first (factories r)))
      else Inl (RuntimeError ''No agents are registered in the registry.''))"

text \<open>
  \<open>requested_module\<close> and the \<open>input\<close> entry of the query are a string or \<open>None\<close>
  (\<open>x or ""\<close> turns \<open>None\<close> into the empty string).
\<close>

definition or_empty :: "string option \<Rightarrow> string" where
  "or_empty x = (case x of None \<Rightarrow> [] | Some s \<Rightarrow> s)"

definition resolve_module :: "registry \<Rightarrow> string list \<Rightarrow> string option \<Rightarrow> string option \<Rightarrow> py_error + string" where
  "resolve_module r flags requested_module input =
     (let candidate = lower (strip (or_empty requested_module))
      in if candidate \<noteq> [] \<and> candidate \<in> get_available_modules r \<and> is_module_enabled r flags candidate
         then Inr candidate
         else (let prompt_text = or_empty input
               in case infer_module r prompt_text of
                    Some inferred \<Rightarrow>
                      if inferred \<noteq> [] \<and> is_module_enabled r flags inferred then Inr inferred
                      else default_module r
                  | None \<Rightarrow> default_module r))"

text \<open>
  Two notions the statements about the resolver use. \<open>keyword_score prompt name\<close> is the
  count \<open>_infer_module\<close> computes for a module of the table (zero for any other name);
  \<open>valid_request\<close> is the test of the first branch of \<open>_resolve_module\<close>.
\<close>

definition keyword_score :: "string \<Rightarrow> string \<Rightarrow> nat" where
  "keyword_score prompt name =
     (case map_of module_hints name of
        None \<Rightarrow> 0
      | Some hints \<Rightarrow> hint_count (lower prompt) hints)"

definition valid_request :: "registry \<Rightarrow> string list \<Rightarrow> string option \<Rightarrow> bool" where
  "valid_request r flags requested_module =
     (let candidate = lower (strip (or_empty requested_module))
      in candidate \<noteq> [] \<and> candidate \<in> get_available_modules r \<and> is_module_enabled r flags candidate)"

section \<open>The guardrails (workflows/hierarchical\_graph.py, tools/data\_quality\_tools.py)\<close>

text \<open>
  The configuration is the \<open>guardrails\<close> block of the feature flags, read through an
  \<open>lru_cache\<close>: it is the same mapping for the life of the process. An entry is a
  dictionary; a key that is absent is \<open>None\<close> here, and the values have the types the
  tools expect (names are strings, the time to live is an integer, the threshold is a
  number). Numbers are the exact values of the floats the code compares.
\<close>

record guardrail_result =
  ok :: bool
  message :: "string option"

definition success :: guardrail_result where
  "success = \<lparr>ok = True, message = None\<rparr>"

definition failure :: "string \<Rightarrow> guardrail_result" where
  "failure msg = \<lparr>ok = False, message = Some msg\<rparr>"

text \<open>Truth value of an optional string: \<open>None\<close> and the empty string are false.\<close>

definition truthy :: "string option \<Rightarrow> bool" where
  "truthy x \<longleftrightarrow> (case x of None \<Rightarrow> False | Some v \<Rightarrow> v \<noteq> [])"

record freshness_config =
  fr_table :: "string option"
  fr_timestamp_column :: "string option"
  fr_ttl_seconds :: "int option"

record null_rate_check =
  nr_table :: "string option"
  nr_column :: "string option"
  nr_where :: "string option"
  nr_max_null_rate :: "rat option"

text \<open>The null-rate entry of a module is one dictionary or a list of them.\<close>

datatype null_rate_checks = Single null_rate_check | Many "null_rate_check list"

record guardrail_config =
  freshness :: "string \<rightharpoonup> freshness_config"
  null_rate :: "string \<rightharpoonup> null_rate_checks"

text \<open>
  What the tools return, after \<open>json.loads\<close>: \<open>check_table_freshness\<close> gives
  \<open>{"error": e}\<close> or a dictionary with \<open>latest_timestamp\<close> (possibly \<open>null\<close>);
  \<open>check_null_rate\<close> gives \<open>{"error": e}\<close> or a dictionary with \<open>null_rate\<close> (\<open>null\<close>
  for a table without rows). \<open>Invalid_json\<close> is a text that does not parse, with the
  text of the \<open>JSONDecodeError\<close>.
\<close>

datatype freshness_reply = Freshness_error string | Latest "string option"

datatype null_rate_reply = Null_rate_error string | Rate "rat option"

datatype 'a tool_output = Invalid_json string | Reply 'a

type_synonym freshness_payload = "string option \<times> string option"
type_synonym null_rate_payload = "string option \<times> string option \<times> string option"

text \<open>
  The state of the guardrails: the class-level \<open>_freshness_cache\<close>, and two logs that
  are not in the source and record the payload of every call of a tool.
\<close>

record supervisor =
  freshness_cache :: "string \<rightharpoonup> (timestamp \<times> freshness_reply)"
  freshness_calls :: "freshness_payload list"
  null_rate_calls :: "null_rate_payload list"

definition initial_supervisor :: supervisor where
  "initial_supervisor = \<lparr>freshness_cache = Map.empty, freshness_calls = [], null_rate_calls = []\<rparr>"

text \<open>\<open>not config\<close>: an empty dictionary.\<close>

definition no_freshness_keys :: "freshness_config \<Rightarrow> bool" where
  "no_freshness_keys c \<longleftrightarrow> fr_table c = None \<and> fr_timestamp_column c = None \<and> fr_ttl_seconds c = None"

definition ttl_of :: "freshness_config \<Rightarrow> int" where
  "ttl_of c = (case fr_ttl_seconds c of None \<Rightarrow> 300 | Some t \<Rightarrow> t)"

text \<open>
  \<open>_run_freshness_guardrail\<close>. \<open>now\<close> is \<open>datetime.utcnow()\<close> where the age of the cache
  entry is taken, \<open>stored_at\<close> the later reading that goes into the cache; both are in
  seconds. \<open>tool\<close> is what \<open>freshness_tool.func\<close> answers during this call.
\<close>

definition run_freshness_guardrail ::
  "supervisor \<Rightarrow> string \<Rightarrow> (string \<rightharpoonup> freshness_config)
     \<Rightarrow> (freshness_payload \<Rightarrow> freshness_reply tool_output) \<Rightarrow> timestamp \<Rightarrow> timestamp
     \<Rightarrow> guardrail_result \<times> supervisor" where
  "run_freshness_guardrail s name guardrails tool now stored_at =
     (case guardrails name of
        None \<Rightarrow> (success, s)
      | Some config \<Rightarrow>
          if no_freshness_keys config then (success, s)
          else
            (let ttl_seconds = ttl_of config;
                 hit = (case freshness_cache s name of
                          None \<Rightarrow> None
                        | Some (cached_at, cached_result) \<Rightarrow>
                            if now - cached_at < of_int ttl_seconds then Some cached_result else None)
             in case hit of
                  Some (Freshness_error e) \<Rightarrow> (failure e, s)
                | Some (Latest _) \<Rightarrow> (success, s)
                | None \<Rightarrow>
                    if \<not> truthy (fr_table config) \<or> \<not> truthy (fr_timestamp_column config)
                    then (success, s)
                    else
                      (let payload = (fr_table config, fr_timestamp_column config);
                           s1 = s\<lparr>freshness_calls := freshness_calls s @ [payload]\<rparr>
                       in case tool payload of
                            Invalid_json exc \<Rightarrow>
                              (let msg = ''Freshness guardrail returned invalid JSON: '' @ exc
                               in (failure msg,
                                   s1\<lparr>freshness_cache :=
                                        (freshness_cache s1)(name \<mapsto> (stored_at, Freshness_error msg))\<rparr>))
                          | Reply res \<Rightarrow>
                              (let s2 = s1\<lparr>freshness_cache :=
                                             (freshness_cache s1)(name \<mapsto> (stored_at, res))\<rparr>
                               in case res of
                                    Freshness_error e \<Rightarrow>
                                      if e \<noteq> [] then (failure (''Freshness guardrail failed: '' @ e), s2)
                                      else (failure ''Freshness guardrail found no recent data'', s2)
                                  | Latest None \<Rightarrow>
                                      (failure ''Freshness guardrail found no recent data'', s2)
                                  | Latest (Some _) \<Rightarrow> (success, s2)))))"

text \<open>
  Decimal text of a number with four digits after the point, as the format \<open>.4f\<close>
  gives it (the nearest multiple of 0.0001, a tie going to the even one).
\<close>

fun digits_of :: "nat \<Rightarrow> string" where
  "digits_of n =
     (if n < 10 then [''0123456789'' ! n] else digits_of (n div 10) @ [''0123456789'' ! (n mod 10)])"

declare digits_of.simps [simp del]

definition round_half_even :: "rat \<Rightarrow> int" where
  "round_half_even x =
     (let q = \<lfloor>x\<rfloor>; f = x - of_int q
      in if f < 1 / 2 then q else if 1 / 2 < f then q + 1 else if even q then q else q + 1)"

definition format_4f :: "rat \<Rightarrow> string" where
  "format_4f x =
     (let n = nat (round_half_even (\<bar>x\<bar> * 10000));
          frac = digits_of (n mod 10000)
      in (if x < 0 then ''-'' else []) @ digits_of (n div 10000) @ ''.''
         @ replicate (4 - length frac) CHR ''0'' @ frac)"

text \<open>
  \<open>_run_null_rate_guardrail\<close>: the loop over the checks of a module. An entry without
  table, column or threshold is passed over; the first check that fails ends the loop.
  The two conversions by \<open>float\<close> cannot fail on numbers.
\<close>

fun run_null_rate_checks ::
  "supervisor \<Rightarrow> (null_rate_payload \<Rightarrow> null_rate_reply tool_output) \<Rightarrow> null_rate_check list
     \<Rightarrow> guardrail_result \<times> supervisor" where
  "run_null_rate_checks s tool [] = (success, s)"
| "run_null_rate_checks s tool (check # checks) =
     (if \<not> truthy (nr_table check) \<or> \<not> truthy (nr_column check) \<or> nr_max_null_rate check = None
      then run_null_rate_checks s tool checks
      else
        (let payload = (nr_table check, nr_column check,
                        if truthy (nr_where check) then nr_where check else None);
             s1 = s\<lparr>null_rate_calls := null_rate_calls s @ [payload]\<rparr>
         in case tool payload of
              Invalid_json exc \<Rightarrow> (failure (''Null-rate guardrail returned invalid JSON: '' @ exc), s1)
            | Reply (Null_rate_error e) \<Rightarrow>
                if e \<noteq> [] then (failure (''Null-rate guardrail failed: '' @ e), s1)
                else (failure ''Null-rate guardrail returned no rate'', s1)
            | Reply (Rate None) \<Rightarrow> (failure ''Null-rate guardrail returned no rate'', s1)
            | Reply (Rate (Some rate_value)) \<Rightarrow>
                (let threshold = the (nr_max_null_rate check)
                 in if rate_value > threshold
                    then (failure (''Null-rate guardrail exceeded for '' @ or_empty (nr_table check) @ ''.''
                                   @ or_empty (nr_column check) @ '': '' @ format_4f rate_value
                                   @ '' > allowed '' @ format_4f threshold), s1)
                    else run_null_rate_checks s1 tool checks)))"

definition no_null_rate_keys :: "null_rate_check \<Rightarrow> bool" where
  "no_null_rate_keys c \<longleftrightarrow>
     nr_table c = None \<and> nr_column c = None \<and> nr_where c = None \<and> nr_max_null_rate c = None"

definition run_null_rate_guardrail ::
  "supervisor \<Rightarrow> string \<Rightarrow> (string \<rightharpoonup> null_rate_checks)
     \<Rightarrow> (null_rate_payload \<Rightarrow> null_rate_reply tool_output) \<Rightarrow> guardrail_result \<times> supervisor" where
  "run_null_rate_guardrail s name guardrails tool =
     (case guardrails name of
        None \<Rightarrow> (success, s)
      | Some (Single check) \<Rightarrow>
          if no_null_rate_keys check then (success, s) else run_null_rate_checks s tool [check]
      | Some (Many checks) \<Rightarrow> run_null_rate_checks s tool checks)"

text \<open>
  \<open>_run_guardrails\<close>. \<open>contracts_enabled\<close> is the module constant \<open>_CONTRACTS_ENABLED\<close>,
  read from the environment when the module is loaded.
\<close>

definition run_guardrails ::
  "bool \<Rightarrow> supervisor \<Rightarrow> string \<Rightarrow> guardrail_config
     \<Rightarrow> (freshness_payload \<Rightarrow> freshness_reply tool_output)
     \<Rightarrow> (null_rate_payload \<Rightarrow> null_rate_reply tool_output) \<Rightarrow> timestamp \<Rightarrow> timestamp
     \<Rightarrow> guardrail_result \<times> supervisor" where
  "run_guardrails contracts_enabled s name config freshness_tool null_rate_tool now stored_at =
     (if \<not> contracts_enabled then (success, s)
      else (let (res, s1) = run_freshness_guardrail s name (freshness config) freshness_tool now stored_at
            in if \<not> ok res then (res, s1)
               else run_null_rate_guardrail s1 name (null_rate config) null_rate_tool))"

text \<open>
  The states of the guardrails the code can reach under one configuration: from the
  empty cache, by guardrail runs for any module, at any time, with any tool answers.
\<close>

inductive reachable :: "guardrail_config \<Rightarrow> supervisor \<Rightarrow> bool" where
  reachable_initial: "reachable config initial_supervisor"
| reachable_freshness:
    "reachable config s \<Longrightarrow>
     reachable config (snd (run_freshness_guardrail s name (freshness config) tool now stored_at))"
| reachable_null_rate:
    "reachable config s \<Longrightarrow>
     reachable config (snd (run_null_rate_guardrail s name (null_rate config) tool))"

text \<open>
  Notions the statements about the guardrails use: the payload a check sends to the
  tool, when an entry is complete (nothing the code asks for is missing), the list of
  checks of a module, and whether the cache holds an entry for a module that is
  younger than the time to live.
\<close>

definition payload_of :: "null_rate_check \<Rightarrow> null_rate_payload" where
  "payload_of check = (nr_table check, nr_column check, if truthy (nr_where check) then nr_where check else None)"

definition complete_check :: "null_rate_check \<Rightarrow> bool" where
  "complete_check check \<longleftrightarrow> truthy (nr_table check) \<and> truthy (nr_column check) \<and> nr_max_null_rate check \<noteq> None"

fun checks_of :: "null_rate_checks \<Rightarrow> null_rate_check list" where
  "checks_of (Single check) = [check]"
| "checks_of (Many checks) = checks"

definition complete_freshness :: "freshness_config \<Rightarrow> bool" where
  "complete_freshness c \<longleftrightarrow> truthy (fr_table c) \<and> truthy (fr_timestamp_column c)"

definition cache_live :: "supervisor \<Rightarrow> string \<Rightarrow> int \<Rightarrow> timestamp \<Rightarrow> bool" where
  "cache_live s name ttl now \<longleftrightarrow>
     (case freshness_cache s name of
        None \<Rightarrow> False
      | Some (cached_at, cached_result) \<Rightarrow> now - cached_at < of_int ttl)"

text \<open>
  For the statement about the calls of the null-rate tool, in its words: a check
  passes when the tool answers with a ratio that is not above the threshold of the
  entry; a run invokes the tool for the complete entries in order, up to and including
  the first whose check does not pass; the complete entries of a module.
\<close>

definition check_passes :: "(null_rate_payload \<Rightarrow> null_rate_reply tool_output) \<Rightarrow> null_rate_check \<Rightarrow> bool" where
  "check_passes tool check \<longleftrightarrow>
     (case tool (payload_of check) of
        Reply (Rate (Some ratio)) \<Rightarrow>
          (case nr_max_null_rate check of None \<Rightarrow> False | Some threshold \<Rightarrow> \<not> threshold < ratio)
      | _ \<Rightarrow> False)"

fun invoked ::
  "(null_rate_payload \<Rightarrow> null_rate_reply tool_output) \<Rightarrow> null_rate_check list \<Rightarrow> null_rate_check list" where
  "invoked tool [] = []"
| "invoked tool (check # checks) = (if check_passes tool check then check # invoked tool checks else [check])"

definition complete_checks :: "(string \<rightharpoonup> null_rate_checks) \<Rightarrow> string \<Rightarrow> null_rate_check list" where
  "complete_checks guardrails name =
     (case guardrails name of None \<Rightarrow> [] | Some entry \<Rightarrow> filter complete_check (checks_of entry))"

text \<open>Concrete configurations and tool answers for the examples.\<close>

definition example_check :: null_rate_check where
  "example_check = \<lparr>nr_table = Some ''shipments_items'', nr_column = Some ''sku'', nr_where = None,
                     nr_max_null_rate = Some (1 / 10)\<rparr>"

definition example_guardrails :: guardrail_config where
  "example_guardrails = \<lparr>freshness = Map.empty, null_rate = [''sales'' \<mapsto> Single example_check]\<rparr>"

definition example_config :: guardrail_config where
  "example_config =
     \<lparr>freshness = [''sales'' \<mapsto> \<lparr>fr_table = Some ''orders'', fr_timestamp_column = None, fr_ttl_seconds = Some 60\<rparr>,
                   ''logistics'' \<mapsto> \<lparr>fr_table = Some ''shipments'', fr_timestamp_column = Some ''updated_at'',
                                     fr_ttl_seconds = None\<rparr>],
      null_rate = [''sales'' \<mapsto> Single \<lparr>nr_table = Some ''orders'', nr_column = Some ''customer_id'',
                                          nr_where = None, nr_max_null_rate = None\<rparr>,
                   ''logistics'' \<mapsto> Many [example_check]]\<rparr>"

definition after_stale_logistics :: supervisor where
  "after_stale_logistics =
     snd (run_freshness_guardrail initial_supervisor ''logistics'' (freshness example_config)
            (\<lambda>p. Reply (Freshness_error ''timeout'')) 0 1)"

definition stale_tool :: "freshness_payload \<Rightarrow> freshness_reply tool_output" where
  "stale_tool p = Reply (Freshness_error ''timeout'')"

definition fresh_tool :: "freshness_payload \<Rightarrow> freshness_reply tool_output" where
  "fresh_tool p = Reply (Latest (Some ''2024-05-01T00:00:00''))"

definition low_rate_tool :: "null_rate_payload \<Rightarrow> null_rate_reply tool_output" where
  "low_rate_tool p = Reply (Rate (Some (5 / 100)))"

definition strict_check :: null_rate_check where
  "strict_check = \<lparr>nr_table = Some ''shipments'', nr_column = Some ''carrier'', nr_where = None,
                    nr_max_null_rate = Some (1 / 100)\<rparr>"

definition two_checks :: "string \<rightharpoonup> null_rate_checks" where
  "two_checks = [''logistics'' \<mapsto> Many [example_check, strict_check]]"

definition high_rate_tool :: "null_rate_payload \<Rightarrow> null_rate_reply tool_output" where
  "high_rate_tool p = Reply (Rate (Some (15 / 100)))"

section \<open>Routing a query and running a workflow (workflows/hierarchical\_graph.py)\<close>

text \<open>
  Values of the dictionaries that travel through the router. A dictionary is the list
  of its items in insertion order, with distinct keys. \<open>PJsonText d\<close> stands for the
  string \<open>json.dumps(d)\<close>.
\<close>

datatype pyval =
    PNone
  | PStr string
  | PInt int
  | PBool bool
  | PDict "(string \<times> pyval) list"
  | PList "pyval list"
  | PJsonText "(string \<times> pyval) list"

type_synonym pydict = "(string \<times> pyval) list"

definition dict_get :: "pydict \<Rightarrow> string \<Rightarrow> pyval option" where
  "dict_get d k = map_of d k"

fun dict_set :: "string \<Rightarrow> pyval \<Rightarrow> pydict \<Rightarrow> pydict" where
  "dict_set k v [] = [(k, v)]"
| "dict_set k v (item # items) = (if fst item = k then (k, v) # items else item # dict_set k v items)"

definition setdefault :: "string \<Rightarrow> pyval \<Rightarrow> pydict \<Rightarrow> pydict" where
  "setdefault k v d = (if dict_get d k = None then d @ [(k, v)] else d)"

record simple_context =
  summary :: "string option"
  ctx_metadata :: pydict

definition is_empty :: "simple_context \<Rightarrow> bool" where
  "is_empty c \<longleftrightarrow> \<not> (truthy (summary c) \<or> ctx_metadata c \<noteq> [])"

definition to_legacy_dict :: "simple_context \<Rightarrow> pydict" where
  "to_legacy_dict c =
     (if truthy (summary c) then [(''summary'', PStr (or_empty (summary c)))] else [])
     @ (if ctx_metadata c \<noteq> [] then [(''metadata'', PDict (ctx_metadata c))] else [])"

definition render_text :: "simple_context \<Rightarrow> pyval" where
  "render_text c =
     (if truthy (summary c) then PStr (or_empty (summary c))
      else if ctx_metadata c \<noteq> [] then PJsonText (ctx_metadata c)
      else PStr [])"

record agent_task_input =
  in_module :: string
  in_prompt :: string
  in_session_id :: string
  in_parameters :: pydict

text \<open>
  \<open>AgentTaskInput.from_workflow\<close> on the payload \<open>execute_workflow\<close> builds: the keys
  \<open>input\<close> and \<open>session_id\<close>, no \<open>parameters\<close>.
\<close>

definition from_workflow :: "string \<Rightarrow> string option \<Rightarrow> string option \<Rightarrow> py_error + agent_task_input" where
  "from_workflow name input session =
     (let prompt = strip (or_empty input)
      in if prompt = [] then Inl (ValueError ''Input prompt must be provided.'')
         else Inr \<lparr>in_module = (if name = [] then ''unknown'' else name),
                   in_prompt = prompt,
                   in_session_id = (if truthy session then or_empty session else ''default''),
                   in_parameters = []\<rparr>)"

text \<open>
  An element of \<open>tool_traces\<close> or \<open>handoffs\<close>: a plain dictionary, which is what the
  annotation \<open>List[Dict[str, Any]]\<close> of the dataclass says, or an object with a method
  \<open>model_dump\<close> (\<open>Model_item d\<close>, where \<open>d\<close> is what the method returns).
\<close>

datatype trace_item = Dict_item pydict | Model_item pydict

record agent_task_output =
  out_result :: pydict
  out_session_id :: string
  out_module :: string
  out_metrics :: "pydict option"
  out_context :: simple_context
  out_tool_traces :: "trace_item list"
  out_handoffs :: "trace_item list"

text \<open>
  What looking up the agent, building it and calling \<open>execute\<close> comes to: a
  \<open>ValueError\<close>, another \<open>Exception\<close>, a dictionary, an \<open>AgentTaskOutput\<close>, or a value
  of another type (with the text of its type).
\<close>

datatype handler_outcome =
    Handler_value_error string
  | Handler_error string
  | Handler_dict pydict
  | Handler_output agent_task_output
  | Handler_other string

text \<open>\<open>[item.model_dump(...) for item in items]\<close>: a plain dictionary has no such method.\<close>

fun model_dump_all :: "trace_item list \<Rightarrow> py_error + pyval list" where
  "model_dump_all [] = Inr []"
| "model_dump_all (Dict_item d # items) = Inl (AttributeError (quoted ''dict'' @ '' object has no attribute '' @ quoted ''model_dump''))"
| "model_dump_all (Model_item d # items) =
     (case model_dump_all items of Inl e \<Rightarrow> Inl e | Inr vs \<Rightarrow> Inr (PDict d # vs))"

text \<open>The response built from the output of the agent (lines 457 to 473).\<close>

definition build_response ::
  "agent_task_output \<Rightarrow> string \<Rightarrow> string \<Rightarrow> string \<Rightarrow> py_error + pydict" where
  "build_response output requested_module resolved_module trace_id =
     (let r0 = out_result output;
          r1 = (case out_metrics output of
                  None \<Rightarrow> r0
                | Some m \<Rightarrow> if m \<noteq> [] then dict_set ''_metrics'' (PDict m) r0 else r0);
          r2 = (if \<not> is_empty (out_context output)
                then setdefault ''_context_text'' (render_text (out_context output))
                       (dict_set ''_context'' (PDict (to_legacy_dict (out_context output))) r1)
                else r1)
      in case (if out_tool_traces output \<noteq> [] then model_dump_all (out_tool_traces output) else Inr []) of
           Inl e \<Rightarrow> Inl e
         | Inr traces \<Rightarrow>
             (let r3 = (if out_tool_traces output \<noteq> [] then dict_set ''_tool_traces'' (PList traces) r2 else r2)
              in case (if out_handoffs output \<noteq> [] then model_dump_all (out_handoffs output) else Inr []) of
                   Inl e \<Rightarrow> Inl e
                 | Inr handoffs \<Rightarrow>
                     (let r4 = (if out_handoffs output \<noteq> [] then dict_set ''_handoffs'' (PList handoffs) r3 else r3);
                          r5 = setdefault ''_module'' (PStr resolved_module) r4;
                          r6 = (if requested_module \<noteq> [] \<and> requested_module \<noteq> resolved_module
                                then setdefault ''_requested_module'' (PStr requested_module) r5 else r5);
                          r7 = setdefault ''_session_id'' (PStr (out_session_id output)) r6
                      in Inr (setdefault ''_trace_id'' (PStr trace_id) r7))))"

text \<open>
  Logging. Every call of the logger in \<open>route_query\<close> passes
  \<open>extra={"module": ...}\<close>. \<open>module\<close> is an attribute of every \<open>LogRecord\<close>, and
  \<open>Logger.makeRecord\<close> raises \<open>KeyError\<close> for an \<open>extra\<close> key that is one; the record
  is made when the logger is enabled for the level of the call. So such a call raises
  when the logger is enabled for its level and does nothing otherwise. The threshold
  is the lowest level the logger of the module is enabled for; it comes from the
  logging configuration of the process (30, \<open>WARNING\<close>, when nothing is configured).
\<close>

definition INFO :: nat where
  "INFO = 20"

definition WARNING :: nat where
  "WARNING = 30"

definition ERROR :: nat where
  "ERROR = 40"

definition is_enabled_for :: "nat \<Rightarrow> nat \<Rightarrow> bool" where
  "is_enabled_for threshold level \<longleftrightarrow> threshold \<le> level"

definition module_key_error :: py_error where
  "module_key_error = KeyError (''Attempt to overwrite '' @ quoted ''module'' @ '' in LogRecord'')"

text \<open>A logger call with the key \<open>module\<close> at a level, followed by \<open>return value\<close>.\<close>

definition log_with_module :: "nat \<Rightarrow> nat \<Rightarrow> 'a \<Rightarrow> py_error + 'a" where
  "log_with_module threshold level value =
     (if is_enabled_for threshold level then Inl module_key_error else Inr value)"

text \<open>
  What does not change while a workflow runs (the registry, the feature flags, the
  contracts switch, the guardrail configuration, the threshold of the logger), and
  what the outside world answers during one step (the agents, the two tools, the
  clock).
\<close>

record system =
  sys_registry :: registry
  sys_flags :: "string list"
  sys_contracts_enabled :: bool
  sys_guardrails :: guardrail_config
  sys_log_level :: nat

record step_env =
  env_handler :: "string \<Rightarrow> agent_task_input \<Rightarrow> handler_outcome"
  env_freshness_tool :: "freshness_payload \<Rightarrow> freshness_reply tool_output"
  env_null_rate_tool :: "null_rate_payload \<Rightarrow> null_rate_reply tool_output"
  env_now :: timestamp
  env_stored_at :: timestamp

record query_data =
  q_input :: "string option"
  q_session_id :: "string option"
  q_trace_id :: "string option"

definition error_response :: "string \<Rightarrow> pydict" where
  "error_response msg = [(''error'', PStr msg)]"

text \<open>Truth value of a value of a response, as \<open>if error_message:\<close> takes it.\<close>

definition truthy_val :: "pyval \<Rightarrow> bool" where
  "truthy_val v =
     (case v of
        PNone \<Rightarrow> False
      | PStr t \<Rightarrow> t \<noteq> []
      | PInt i \<Rightarrow> i \<noteq> 0
      | PBool b \<Rightarrow> b
      | PDict d \<Rightarrow> d \<noteq> []
      | PList vs \<Rightarrow> vs \<noteq> []
      | PJsonText d \<Rightarrow> True)"

text \<open>
  The end of \<open>route_query\<close> (lines 475 to 502), once the response is built: a warning
  when the response has a true \<open>error\<close> value, a message at level \<open>INFO\<close> otherwise,
  then \<open>return response\<close>.
\<close>

definition finish_response :: "nat \<Rightarrow> py_error + pydict \<Rightarrow> py_error + pydict" where
  "finish_response threshold built =
     (case built of
        Inl e \<Rightarrow> Inl e
      | Inr response \<Rightarrow>
          (case dict_get response ''error'' of
             None \<Rightarrow> log_with_module threshold INFO response
           | Some error_message \<Rightarrow>
               if truthy_val error_message then log_with_module threshold WARNING response
               else log_with_module threshold INFO response))"

text \<open>
  \<open>route_query\<close>. An exception that leaves the function is \<open>Inl\<close>; the response is
  \<open>Inr\<close>. The telemetry calls (\<open>log_agent_action\<close>, \<open>log_application_event\<close>) and the
  logging context swallow their own failures and return nothing: they are left out.
  The calls of the logger are in: the one at level \<open>INFO\<close> that opens the \<open>try\<close>, and
  the one before each \<open>return\<close>. None of them is inside a \<open>try\<close> that catches
  \<open>KeyError\<close> (those in the \<open>except\<close> clauses run after the clause has caught its
  exception), so their \<open>KeyError\<close> leaves the function.
\<close>

definition route_query ::
  "system \<Rightarrow> step_env \<Rightarrow> supervisor \<Rightarrow> string option \<Rightarrow> query_data \<Rightarrow> string option
     \<Rightarrow> (py_error + pydict) \<times> supervisor" where
  "route_query sys env s module_arg query workflow_run_id =
     (let trace_id = (if truthy (q_trace_id query) then or_empty (q_trace_id query)
                      else if truthy workflow_run_id then or_empty workflow_run_id else ''N/A'');
          requested_module = lower (strip (or_empty module_arg));
          threshold = sys_log_level sys
      in case resolve_module (sys_registry sys) (sys_flags sys) (Some requested_module) (q_input query) of
           Inl e \<Rightarrow> (Inl e, s)
         | Inr resolved_module \<Rightarrow>
             if is_enabled_for threshold INFO then (Inl module_key_error, s)
             else if \<not> is_module_enabled (sys_registry sys) (sys_flags sys) resolved_module
             then (log_with_module threshold WARNING
                     (error_response (''Module '' @ quoted resolved_module @ '' is disabled or unknown'')), s)
             else
               (let (guardrail_result, s1) =
                      run_guardrails (sys_contracts_enabled sys) s resolved_module (sys_guardrails sys)
                        (env_freshness_tool env) (env_null_rate_tool env) (env_now env) (env_stored_at env)
                in if \<not> ok guardrail_result
                   then (log_with_module threshold WARNING
                           [(''error'', case message guardrail_result of None \<Rightarrow> PNone | Some m \<Rightarrow> PStr m)], s1)
                   else
                     case from_workflow resolved_module (q_input query) (q_session_id query) of
                       Inl (ValueError m) \<Rightarrow> (log_with_module threshold ERROR (error_response m), s1)
                     | Inl e \<Rightarrow> (Inl e, s1)
                     | Inr agent_input \<Rightarrow>
                         (case (case get_agent (sys_registry sys) resolved_module of
                                  Inl (ValueError m) \<Rightarrow> Handler_value_error m
                                | Inl _ \<Rightarrow> Handler_error []
                                | Inr _ \<Rightarrow> env_handler env resolved_module agent_input) of
                            Handler_value_error m \<Rightarrow> (log_with_module threshold ERROR (error_response m), s1)
                          | Handler_error m \<Rightarrow> (log_with_module threshold ERROR (error_response m), s1)
                          | Handler_other ty \<Rightarrow>
                              (log_with_module threshold ERROR
                                 (error_response (''Agent '' @ quoted resolved_module
                                    @ '' returned unsupported payload type: '' @ ty)), s1)
                          | Handler_dict raw \<Rightarrow>
                              (finish_response threshold
                                 (build_response
                                    \<lparr>out_result = raw, out_session_id = in_session_id agent_input,
                                     out_module = resolved_module, out_metrics = None,
                                     out_context = \<lparr>summary = None, ctx_metadata = []\<rparr>,
                                     out_tool_traces = [], out_handoffs = []\<rparr>
                                    requested_module resolved_module trace_id), s1)
                          | Handler_output output \<Rightarrow>
                              (finish_response threshold
                                 (build_response output requested_module resolved_module trace_id), s1))))"

record workflow_step =
  step_module :: "string option"
  step_input :: "string option"
  step_session_id :: "string option"

text \<open>
  \<open>execute_workflow\<close>: the loop over the steps, from step \<open>index\<close> on, with the results
  so far. \<open>envs i\<close> is the outside world during step \<open>i\<close>. An exception out of
  \<open>route_query\<close> leaves the loop and the function.
\<close>

fun execute_steps ::
  "system \<Rightarrow> (nat \<Rightarrow> step_env) \<Rightarrow> string option \<Rightarrow> string option \<Rightarrow> supervisor \<Rightarrow> nat
     \<Rightarrow> workflow_step list \<Rightarrow> (string option \<times> pydict) list
     \<Rightarrow> (py_error + (string option \<times> pydict) list) \<times> supervisor" where
  "execute_steps sys envs workflow_run_id trace_id s index [] results = (Inr results, s)"
| "execute_steps sys envs workflow_run_id trace_id s index (step # steps) results =
     (let payload = \<lparr>q_input = step_input step,
                     q_session_id = Some (if step_session_id step = None then ''default''
                                          else or_empty (step_session_id step)),
                     q_trace_id = trace_id\<rparr>
      in case route_query sys (envs index) s (step_module step) payload workflow_run_id of
           (Inl e, s1) \<Rightarrow> (Inl e, s1)
         | (Inr res, s1) \<Rightarrow>
             execute_steps sys envs workflow_run_id trace_id s1 (Suc index) steps
               (results @ [(step_module step, res)]))"

definition execute_workflow ::
  "system \<Rightarrow> (nat \<Rightarrow> step_env) \<Rightarrow> supervisor \<Rightarrow> workflow_step list \<Rightarrow> string option \<Rightarrow> string option
     \<Rightarrow> (py_error + (string option \<times> pydict) list) \<times> supervisor" where
  "execute_workflow sys envs s workflow_steps workflow_run_id trace_id =
     execute_steps sys envs workflow_run_id trace_id s 0 workflow_steps []"

text \<open>
  Two notions for the statements about workflows: an outcome of a handler whose traces
  and handoffs can all be dumped, and a response that contains an \<open>error\<close> field.
\<close>

fun dumpable :: "handler_outcome \<Rightarrow> bool" where
  "dumpable (Handler_output output) =
     list_all (\<lambda>item. case item of Dict_item _ \<Rightarrow> False | Model_item _ \<Rightarrow> True)
       (out_tool_traces output @ out_handoffs output)"
| "dumpable _ = True"

definition has_error_field :: "pydict \<Rightarrow> bool" where
  "has_error_field response \<longleftrightarrow> dict_get response ''error'' \<noteq> None"

text \<open>
  A system with every agent registered and enabled and the contracts off, for each
  threshold of the logger; three steps, and three worlds: every agent answers with a
  dictionary; the logistics agent answers with an \<open>AgentTaskOutput\<close> that carries one
  tool trace, a plain dictionary; the logistics agent raises.
\<close>

definition example_system :: "nat \<Rightarrow> system" where
  "example_system threshold =
     \<lparr>sys_registry = register_agents False [], sys_flags = [], sys_contracts_enabled = False,
      sys_guardrails = example_config, sys_log_level = threshold\<rparr>"

definition traced_output :: agent_task_output where
  "traced_output =
     \<lparr>out_result = [(''answer'', PStr ''12 pallets'')], out_session_id = ''default'',
      out_module = ''logistics'', out_metrics = None,
      out_context = \<lparr>summary = None, ctx_metadata = []\<rparr>,
      out_tool_traces = [Dict_item [(''tool'', PStr ''stock_lookup'')]], out_handoffs = []\<rparr>"

definition plain_handler :: "string \<Rightarrow> agent_task_input \<Rightarrow> handler_outcome" where
  "plain_handler name inp = Handler_dict [(''answer'', PStr (in_prompt inp))]"

definition tracing_handler :: "string \<Rightarrow> agent_task_input \<Rightarrow> handler_outcome" where
  "tracing_handler name inp =
     (if name = ''logistics'' then Handler_output traced_output else plain_handler name inp)"

definition raising_handler :: "string \<Rightarrow> agent_task_input \<Rightarrow> handler_outcome" where
  "raising_handler name inp =
     (if name = ''logistics'' then Handler_error ''connection lost'' else plain_handler name inp)"

definition env_with :: "(string \<Rightarrow> agent_task_input \<Rightarrow> handler_outcome) \<Rightarrow> nat \<Rightarrow> step_env" where
  "env_with h i =
     \<lparr>env_handler = h, env_freshness_tool = fresh_tool, env_null_rate_tool = low_rate_tool,
      env_now = of_nat i, env_stored_at = of_nat i\<rparr>"

definition three_steps :: "workflow_step list" where
  "three_steps =
     [\<lparr>step_module = Some ''sales'', step_input = Some ''revenue by customer'', step_session_id = None\<rparr>,
      \<lparr>step_module = Some ''logistics'', step_input = Some ''stock in warehouse'', step_session_id = None\<rparr>,
      \<lparr>step_module = Some ''accounting'', step_input = Some ''invoice totals'', step_session_id = None\<rparr>]"

section \<open>Properties of the dispatcher\<close>

subsection \<open>One pass of the loop body, and the loop\<close>

lemma worker_body_without_state:
  assumes "states d (task_id env) = None"
  shows "worker_body clock d env = Finished (d\<lparr>invocations := invocations d @ [task_id env]\<rparr>)"
  using assms
  by (simp add: worker_body_def mark_running_def execute_def record_outcome_def Let_def)

lemma worker_body_effect:
  assumes st: "states d (task_id env) = Some st"
  shows "\<exists>d' st'.
      (worker_body clock d env = Finished d' \<or> worker_body clock d env = Suspended_in_put d')
    \<and> (worker_body clock d env = Suspended_in_put d'
         \<longleftrightarrow> is_exception (call_result d env) \<and> attempts st + 1 \<le> retries env \<and> full d)
    \<and> states d' (task_id env) = Some st'
    \<and> (\<forall>k. k \<noteq> task_id env \<longrightarrow> states d' k = states d k)
    \<and> attempts st' = attempts st + 1
    \<and> finished_at st' = Some (clock (Suc (ticks d)))
    \<and> started_at st' = Some (clock (ticks d))
    \<and> status st' = (if is_exception (call_result d env)
                     then (if attempts st + 1 \<le> retries env then Retrying else Failed)
                     else Completed)
    \<and> queue d' = (if is_exception (call_result d env) \<and> attempts st + 1 \<le> retries env \<and> \<not> full d
                   then queue d @ [Some env] else queue d)
    \<and> invocations d' = invocations d @ [task_id env]
    \<and> running d' = running d \<and> maxsize d' = maxsize d"
proof -
  let ?res = "call_result d env"
  show ?thesis
  proof (cases "is_exception ?res")
    case False
    then show ?thesis using st
      by (simp add: worker_body_def mark_running_def execute_def record_outcome_def Let_def
          call_result_def)
  next
    case exc: True
    show ?thesis
    proof (cases "attempts st + 1 \<le> retries env")
      case False
      then show ?thesis using st exc
        by (simp add: worker_body_def mark_running_def execute_def record_outcome_def Let_def
            call_result_def)
    next
      case True
      show ?thesis
      proof (cases "full d")
        case True
        then show ?thesis using st exc \<open>attempts st + 1 \<le> retries env\<close>
          by (simp add: worker_body_def mark_running_def execute_def record_outcome_def Let_def
              call_result_def put_def full_def)
      next
        case False
        then show ?thesis using st exc \<open>attempts st + 1 \<le> retries env\<close>
          by (simp add: worker_body_def mark_running_def execute_def record_outcome_def Let_def
              call_result_def put_def full_def)
      qed
    qed
  qed
qed


lemma ids_of_append: "ids_of (xs @ ys) = ids_of xs @ ids_of ys"
  by (induction xs rule: ids_of.induct) auto

lemma ids_of_mem: "tid \<in> set (ids_of q) \<longleftrightarrow> (\<exists>e. Some e \<in> set q \<and> task_id e = tid)"
  by (induction q rule: ids_of.induct) auto

lemma is_exception_call_result:
  "is_exception (call_result d env) \<longleftrightarrow> \<not> succeeds (func env (count_list (invocations d) (task_id env)))"
  by (cases "func env (count_list (invocations d) (task_id env))")
     (simp_all add: call_result_def execute_def Let_def)

lemma task_inv_pass:
  assumes inv: "task_inv tid env K S d" and q: "queue d = Some e # q"
    and settles: "settles (func env) (retries env) K S" and tid: "task_id env = tid"
  shows "\<exists>d'. worker_body clock (d\<lparr>queue := q\<rparr>) e = Finished d' \<and> task_inv tid env K S d'"
proof -
  let ?d = "d\<lparr>queue := q\<rparr>"
  from inv obtain st where st: "states d tid = Some st"
    and cnt: "int (count_list (invocations d) tid) = attempts st"
    and phase: "if attempts st < K
         then count_list (ids_of (queue d)) tid = 1 \<and>
              (\<forall>e. Some e \<in> set (queue d) \<longrightarrow> task_id e = tid \<longrightarrow> e = env)
         else attempts st = K \<and> tid \<notin> set (ids_of (queue d)) \<and> status st = S"
    and run: "running d" and nosent: "None \<notin> set (queue d)"
    and bound: "maxsize d \<le> 0 \<or> int (length (queue d)) \<le> maxsize d"
    unfolding task_inv_def by blast
  have notfull: "\<not> full ?d" using bound q by (auto simp: full_def)
  have nosent': "None \<notin> set q" using nosent q by auto
  show ?thesis
  proof (cases "task_id e = tid")
    case other: False
    show ?thesis
    proof (cases "states ?d (task_id e)")
      case None
      then have "worker_body clock ?d e = Finished (?d\<lparr>invocations := invocations ?d @ [task_id e]\<rparr>)"
        by (rule worker_body_without_state)
      moreover have "task_inv tid env K S (?d\<lparr>invocations := invocations ?d @ [task_id e]\<rparr>)"
        using st cnt phase run nosent' bound q other
        by (auto simp: task_inv_def split: if_splits)
      ultimately show ?thesis by blast
    next
      case (Some st_e)
      from worker_body_effect [OF Some, of clock] notfull
      obtain d' st' where fin: "worker_body clock ?d e = Finished d'"
        and same: "\<forall>k. k \<noteq> task_id e \<longrightarrow> states d' k = states ?d k"
        and qd': "queue d' = q \<or> queue d' = q @ [Some e]"
        and inv': "invocations d' = invocations ?d @ [task_id e]"
        and rest: "running d' = running ?d" "maxsize d' = maxsize ?d"
        by (auto split: if_splits)
      have "task_inv tid env K S d'"
        using st cnt phase run nosent' bound q other same qd' inv' rest
        by (auto simp: task_inv_def ids_of_append split: if_splits)
      with fin show ?thesis by blast
    qed
  next
    case mine: True
    with q have "tid \<in> set (ids_of (queue d))" by simp
    with phase have pending: "attempts st < K"
      and once: "count_list (ids_of (queue d)) tid = 1"
      and only: "\<forall>e. Some e \<in> set (queue d) \<longrightarrow> task_id e = tid \<longrightarrow> e = env"
      by (auto split: if_splits)
    from only q mine have e: "e = env" by simp
    from once q mine have gone: "tid \<notin> set (ids_of q)"
      by (simp add: count_list_0_iff)
    have st_d: "states ?d (task_id env) = Some st" using st tid by simp
    have idx: "count_list (invocations d) (task_id env) = nat (attempts st)"
      using cnt tid by simp
    have a0: "0 \<le> attempts st" using cnt by linarith
    from worker_body_effect [OF st_d, of clock] notfull
    obtain d' st' where fin: "worker_body clock ?d env = Finished d'"
      and st': "states d' (task_id env) = Some st'"
      and att: "attempts st' = attempts st + 1"
      and stat: "status st' = (if is_exception (call_result ?d env)
                     then (if attempts st + 1 \<le> retries env then Retrying else Failed)
                     else Completed)"
      and qd': "queue d' = (if is_exception (call_result ?d env) \<and> attempts st + 1 \<le> retries env
                   then q @ [Some env] else q)"
      and inv': "invocations d' = invocations ?d @ [task_id env]"
      and rest: "running d' = running ?d" "maxsize d' = maxsize ?d"
      by (auto split: if_splits)
    have exc: "is_exception (call_result ?d env) \<longleftrightarrow> \<not> succeeds (func env (nat (attempts st)))"
      by (simp add: is_exception_call_result idx)
    from settles have K1: "1 \<le> K" and Kr: "K \<le> retries env + 1"
      and early: "\<And>i. int i < K - 1 \<Longrightarrow> \<not> succeeds (func env i)"
      and last: "if succeeds (func env (nat (K - 1))) then S = Completed
                 else K = retries env + 1 \<and> S = Failed"
      by (auto simp: settles_def)
    have cnt': "int (count_list (invocations d') tid) = attempts st'"
      using inv' cnt att tid by simp
    have "task_inv tid env K S d'"
    proof (cases "attempts st + 1 < K")
      case True
      then have "int (nat (attempts st)) < K - 1" using a0 by simp
      then have "\<not> succeeds (func env (nat (attempts st)))" by (rule early)
      with exc True Kr have requeue: "queue d' = q @ [Some env]" using qd' by simp
      have "count_list (ids_of (queue d')) tid = 1"
        using requeue gone tid by (simp add: ids_of_append count_list_0_iff)
      moreover have "\<forall>e'. Some e' \<in> set (queue d') \<longrightarrow> task_id e' = tid \<longrightarrow> e' = env"
        using requeue gone by (auto simp: ids_of_mem)
      moreover have "maxsize d' \<le> 0 \<or> int (length (queue d')) \<le> maxsize d'"
        using requeue bound q rest by auto
      moreover have "None \<notin> set (queue d')" using requeue nosent' by simp
      ultimately show ?thesis
        using st' att cnt' True run rest tid by (auto simp: task_inv_def)
    next
      case False
      with pending have K: "attempts st = K - 1" by simp
      have qd'': "queue d' = q \<and> status st' = S"
      proof (cases "succeeds (func env (nat (K - 1)))")
        case True
        with last exc K stat qd' show ?thesis by simp
      next
        case False
        with last have "K = retries env + 1" "S = Failed" by simp_all
        with False exc K stat qd' show ?thesis by simp
      qed
      then show ?thesis
        using st' att cnt' K run rest tid gone nosent' bound q by (auto simp: task_inv_def)
    qed
    with fin e show ?thesis by blast
  qed
qed

lemma task_inv_loop:
  assumes "task_inv tid env K S d"
    and "settles (func env) (retries env) K S" and "task_id env = tid"
  shows "fst (worker_loop clock d) = Waiting \<and> queue (snd (worker_loop clock d)) = []
     \<and> task_inv tid env K S (snd (worker_loop clock d))"
  using assms
proof (induction clock d rule: worker_loop.induct)
  case (1 clock d)
  from "1.prems"(1) have run: "running d" and nosent: "None \<notin> set (queue d)"
    by (auto simp: task_inv_def)
  show ?case
  proof (cases "queue d")
    case Nil
    with run "1.prems"(1) show ?thesis by (simp add: worker_loop.simps [of clock d])
  next
    case (Cons item q)
    with nosent obtain e where item: "item = Some e" by (cases item) auto
    from task_inv_pass [OF "1.prems"(1) _ "1.prems"(2,3), of e q clock] Cons item
    obtain d' where fin: "worker_body clock (d\<lparr>queue := q\<rparr>) e = Finished d'"
      and inv': "task_inv tid env K S d'" by auto
    have "worker_loop clock d = worker_loop clock d'"
      using run Cons item fin by (simp add: worker_loop.simps [of clock d])
    moreover have "fst (worker_loop clock d') = Waiting \<and> queue (snd (worker_loop clock d')) = []
        \<and> task_inv tid env K S (snd (worker_loop clock d'))"
      using "1.IH" [OF _ Cons item fin inv' "1.prems"(2,3)] run by simp
    ultimately show ?thesis by simp
  qed
qed


subsection \<open>What submit stores\<close>

text \<open>
  C9. Whatever the arguments of \<open>submit\<close>, a negative \<open>retries\<close> included: the state it
  creates has status \<open>queued\<close>, no attempts, and \<open>max_retries = max 0 retries\<close>; it is in
  the store under the task id as soon as it is created (also while the call is still
  suspended on a full queue), so \<open>result\<close> for the returned id gives this state and
  not \<open>None\<close>.
\<close>

theorem submit_stores_queued_state:
  "\<exists>d' st. (submit clock d f r md tid = Submitted tid d' \<or> submit clock d f r md tid = Suspended d')
     \<and> task_result d' tid = Some st
     \<and> status st = Queued \<and> attempts st = 0 \<and> max_retries st = max 0 r
     \<and> result st = None \<and> error st = None \<and> started_at st = None \<and> finished_at st = None
     \<and> metadata st = md"
proof (cases "full (d\<lparr>states := (states d)(tid \<mapsto> new_task_state (max 0 r) md (clock (ticks d))),
                       ticks := Suc (ticks d)\<rparr>)")
  case True
  then show ?thesis
    by (simp add: submit_def put_def task_result_def new_task_state_def Let_def)
next
  case False
  then show ?thesis
    by (simp add: submit_def put_def task_result_def new_task_state_def Let_def)
qed


subsection \<open>The retry budget\<close>

lemma task_inv_after_submit:
  assumes sub: "submit clock d f r md tid = Submitted tid' d1"
    and run: "running d" and nosent: "None \<notin> set (queue d)"
    and fresh: "tid \<notin> set (ids_of (queue d))" "tid \<notin> set (invocations d)"
    and K: "1 \<le> K"
  shows "tid' = tid \<and>
     task_inv tid \<lparr>task_id = tid, func = f, retries = max 0 r, env_metadata = md\<rparr> K S d1"
proof -
  let ?env = "\<lparr>task_id = tid, func = f, retries = max 0 r, env_metadata = md\<rparr>"
  let ?d0 = "d\<lparr>states := (states d)(tid \<mapsto> new_task_state (max 0 r) md (clock (ticks d))),
               ticks := Suc (ticks d)\<rparr>"
  from sub have nf: "\<not> full ?d0" and tid': "tid' = tid" and d1: "d1 = ?d0\<lparr>queue := queue d @ [Some ?env]\<rparr>"
    by (auto simp: submit_def put_def Let_def split: if_splits)
  from nf have bound: "maxsize d1 \<le> 0 \<or> int (length (queue d1)) \<le> maxsize d1"
    by (auto simp: full_def d1)
  have once: "count_list (ids_of (queue d1)) tid = 1"
    using fresh(1) by (simp add: d1 ids_of_append count_list_0_iff)
  have only: "\<forall>e. Some e \<in> set (queue d1) \<longrightarrow> task_id e = tid \<longrightarrow> e = ?env"
    using fresh(1) by (auto simp: d1 ids_of_mem)
  have cnt: "int (count_list (invocations d1) tid) = 0"
    using fresh(2) by (simp add: d1 count_list_0_iff)
  have st: "states d1 tid = Some (new_task_state (max 0 r) md (clock (ticks d)))"
    by (simp add: d1)
  have "task_inv tid ?env K S d1"
    unfolding task_inv_def
  proof (intro conjI exI)
    show "running d1" using run by (simp add: d1)
    show "None \<notin> set (queue d1)" using nosent by (simp add: d1)
    show "maxsize d1 \<le> 0 \<or> int (length (queue d1)) \<le> maxsize d1" by (rule bound)
    show "states d1 tid = Some (new_task_state (max 0 r) md (clock (ticks d)))" by (rule st)
    show "int (count_list (invocations d1) tid)
        = attempts (new_task_state (max 0 r) md (clock (ticks d)))"
      using cnt by (simp add: new_task_state_def)
    show "if attempts (new_task_state (max 0 r) md (clock (ticks d))) < K
         then count_list (ids_of (queue d1)) tid = 1 \<and>
              (\<forall>e. Some e \<in> set (queue d1) \<longrightarrow> task_id e = tid \<longrightarrow> e = ?env)
         else attempts (new_task_state (max 0 r) md (clock (ticks d))) = K \<and>
              tid \<notin> set (ids_of (queue d1)) \<and>
              status (new_task_state (max 0 r) md (clock (ticks d))) = S"
      using once only K by (simp add: new_task_state_def)
  qed
  with tid' show ?thesis by simp
qed

lemma settled_task:
  assumes inv: "task_inv tid env K S d" and empty: "queue d = []"
  shows "map_option status (task_result d tid) = Some S
     \<and> map_option attempts (task_result d tid) = Some K
     \<and> int (count_list (invocations d) tid) = K"
  using assms by (auto simp: task_inv_def task_result_def split: if_splits)

text \<open>
  C1. A task is submitted with retry budget \<open>r\<close> to a running dispatcher under a fresh
  id, and the worker loop runs until the queue is empty. If every call of the callable
  raises, the callable has been called exactly \<open>max 0 r + 1\<close> times and the task is
  \<open>failed\<close>. If the \<open>k\<close>-th call is the first that succeeds, with \<open>k \<le> max 0 r + 1\<close>, the
  task is \<open>completed\<close> with \<open>attempts = k\<close> (and the callable was called \<open>k\<close> times). The
  loop does reach the empty queue: it neither stops nor is suspended in \<open>put\<close>.
  For \<open>r \<ge> 0\<close>, \<open>max 0 r\<close> is \<open>r\<close>. Other envelopes may be queued before the task,
  each with its own callable and budget.
\<close>

theorem retry_budget_is_exact:
  assumes sub: "submit clock d f r md tid = Submitted tid' d1"
    and run: "running d" and nosent: "None \<notin> set (queue d)"
    and fresh: "tid \<notin> set (ids_of (queue d))" "tid \<notin> set (invocations d)"
  shows "((\<forall>i. \<exists>msg. f i = Raised msg) \<longrightarrow>
            fst (worker_loop clock d1) = Waiting
          \<and> int (count_list (invocations (snd (worker_loop clock d1))) tid') = max 0 r + 1
          \<and> map_option status (task_result (snd (worker_loop clock d1)) tid') = Some Failed
          \<and> map_option attempts (task_result (snd (worker_loop clock d1)) tid') = Some (max 0 r + 1))
       \<and> (\<forall>k. 1 \<le> k \<and> int k \<le> max 0 r + 1 \<and> (\<forall>i<k - 1. \<not> succeeds (f i)) \<and> succeeds (f (k - 1)) \<longrightarrow>
            fst (worker_loop clock d1) = Waiting
          \<and> count_list (invocations (snd (worker_loop clock d1))) tid' = k
          \<and> map_option status (task_result (snd (worker_loop clock d1)) tid') = Some Completed
          \<and> map_option attempts (task_result (snd (worker_loop clock d1)) tid') = Some (int k))"
proof -
  let ?env = "\<lparr>task_id = tid, func = f, retries = max 0 r, env_metadata = md\<rparr>"
  let ?d' = "snd (worker_loop clock d1)"
  have run_to_end: "fst (worker_loop clock d1) = Waiting
      \<and> map_option status (task_result ?d' tid') = Some S
      \<and> map_option attempts (task_result ?d' tid') = Some K
      \<and> int (count_list (invocations ?d') tid') = K"
    if "settles f (max 0 r) K S" for K S
  proof -
    from that have "1 \<le> K" by (simp add: settles_def)
    from task_inv_after_submit [OF sub run nosent fresh this]
    have tid': "tid' = tid" and inv: "task_inv tid ?env K S d1" by simp_all
    from task_inv_loop [OF inv, of clock] that
    have "fst (worker_loop clock d1) = Waiting" "queue ?d' = []" "task_inv tid ?env K S ?d'"
      by simp_all
    with settled_task [of tid ?env K S ?d'] tid' show ?thesis by simp
  qed
  have part1: "fst (worker_loop clock d1) = Waiting
          \<and> int (count_list (invocations ?d') tid') = max 0 r + 1
          \<and> map_option status (task_result ?d' tid') = Some Failed
          \<and> map_option attempts (task_result ?d' tid') = Some (max 0 r + 1)"
    if raises: "\<forall>i. \<exists>msg. f i = Raised msg"
  proof -
    have "\<not> succeeds (f i)" for i
      using raises by (metis succeeds.simps(1))
    then have "settles f (max 0 r) (max 0 r + 1) Failed"
      by (simp add: settles_def)
    from run_to_end [OF this] show ?thesis by simp
  qed
  have part2: "fst (worker_loop clock d1) = Waiting
          \<and> count_list (invocations ?d') tid' = k
          \<and> map_option status (task_result ?d' tid') = Some Completed
          \<and> map_option attempts (task_result ?d' tid') = Some (int k)"
    if k: "1 \<le> k" "int k \<le> max 0 r + 1" "\<forall>i<k - 1. \<not> succeeds (f i)" "succeeds (f (k - 1))" for k
  proof -
    have "nat (int k - 1) = k - 1" by simp
    moreover have "i < k - 1" if "int i < int k - 1" for i using that by linarith
    ultimately have "settles f (max 0 r) (int k) Completed"
      using k by (simp add: settles_def)
    from run_to_end [OF this] show ?thesis by simp
  qed
  from part1 part2 show ?thesis by blast
qed

theorem retry_budget_is_exact_witness:
  "running idle_dispatcher \<and> queue idle_dispatcher = [] \<and> invocations idle_dispatcher = []
   \<and> fst (worker_loop clock0 (dispatcher_of (submit clock0 idle_dispatcher always_raises 2 None ''t1''))) = Waiting
   \<and> int (count_list (invocations (snd (worker_loop clock0
        (dispatcher_of (submit clock0 idle_dispatcher always_raises 2 None ''t1''))))) ''t1'') = 3
   \<and> map_option status (task_result (snd (worker_loop clock0
        (dispatcher_of (submit clock0 idle_dispatcher always_raises 2 None ''t1'')))) ''t1'') = Some Failed
   \<and> map_option status (task_result (snd (worker_loop clock0
        (dispatcher_of (submit clock0 idle_dispatcher third_time_lucky 2 None ''t2'')))) ''t2'') = Some Completed
   \<and> map_option attempts (task_result (snd (worker_loop clock0
        (dispatcher_of (submit clock0 idle_dispatcher third_time_lucky 2 None ''t2'')))) ''t2'') = Some 3"
proof -
  let ?s1 = "submit clock0 idle_dispatcher always_raises 2 None ''t1''"
  let ?s2 = "submit clock0 idle_dispatcher third_time_lucky 2 None ''t2''"
  have s1: "?s1 = Submitted ''t1'' (dispatcher_of ?s1)"
    by (simp add: submit_def put_def full_def idle_dispatcher_def Let_def)
  have s2: "?s2 = Submitted ''t2'' (dispatcher_of ?s2)"
    by (simp add: submit_def put_def full_def idle_dispatcher_def Let_def)
  have idle: "running idle_dispatcher" "None \<notin> set (queue idle_dispatcher)"
    "''t1'' \<notin> set (ids_of (queue idle_dispatcher))" "''t1'' \<notin> set (invocations idle_dispatcher)"
    "''t2'' \<notin> set (ids_of (queue idle_dispatcher))" "''t2'' \<notin> set (invocations idle_dispatcher)"
    by (simp_all add: idle_dispatcher_def)
  have raises: "\<forall>i. \<exists>msg. always_raises i = Raised msg"
    by (simp add: always_raises_def)
  have lucky: "(1::nat) \<le> 3 \<and> int 3 \<le> max 0 2 + 1 \<and> (\<forall>i<3 - 1. \<not> succeeds (third_time_lucky i))
      \<and> succeeds (third_time_lucky (3 - 1))"
    by (simp add: third_time_lucky_def)
  from retry_budget_is_exact [OF s1 idle(1,2,3,4)] raises
  have a: "fst (worker_loop clock0 (dispatcher_of ?s1)) = Waiting
     \<and> int (count_list (invocations (snd (worker_loop clock0 (dispatcher_of ?s1)))) ''t1'') = 3
     \<and> map_option status (task_result (snd (worker_loop clock0 (dispatcher_of ?s1))) ''t1'') = Some Failed"
    by simp
  from retry_budget_is_exact [OF s2 idle(1,2,5,6)] lucky
  have b: "map_option status (task_result (snd (worker_loop clock0 (dispatcher_of ?s2))) ''t2'') = Some Completed
     \<and> map_option attempts (task_result (snd (worker_loop clock0 (dispatcher_of ?s2))) ''t2'') = Some 3"
    by (metis of_nat_numeral)
  from a b idle(1) show ?thesis by (simp add: idle_dispatcher_def)
qed


subsection \<open>Retrying and the finish time\<close>

text \<open>
  C8, as the code has it. One pass of the loop body over an envelope whose task has a
  state counts the attempt and stamps \<open>finished_at\<close> whatever the result of the call:
  on success, on final failure and also when the task goes back to the queue. When the
  call fails and the attempts so far, this one included, are at most the envelope's
  \<open>retries\<close>, the status becomes \<open>retrying\<close> and the same envelope is appended to the
  queue (when the queue is full, the worker is suspended in \<open>put\<close> with the state
  already written). The attempt count lives in the state, not in the envelope, so it
  carries over to the next pass.
\<close>

theorem pass_stamps_finish_time_on_every_branch:
  assumes st: "states d (task_id env) = Some st"
  shows "\<exists>st'. states (after_pass (worker_body clock d env)) (task_id env) = Some st'
    \<and> attempts st' = attempts st + 1
    \<and> finished_at st' = Some (clock (Suc (ticks d)))
    \<and> status st' = (if is_exception (call_result d env)
                     then (if attempts st + 1 \<le> retries env then Retrying else Failed)
                     else Completed)
    \<and> queue (after_pass (worker_body clock d env))
        = (if is_exception (call_result d env) \<and> attempts st + 1 \<le> retries env \<and> \<not> full d
           then queue d @ [Some env] else queue d)
    \<and> (worker_body clock d env = Suspended_in_put (after_pass (worker_body clock d env))
         \<longleftrightarrow> is_exception (call_result d env) \<and> attempts st + 1 \<le> retries env \<and> full d)"
proof -
  from worker_body_effect [OF st, of clock]
  obtain d' st' where
    which: "worker_body clock d env = Finished d' \<or> worker_body clock d env = Suspended_in_put d'"
    and susp: "worker_body clock d env = Suspended_in_put d'
         \<longleftrightarrow> is_exception (call_result d env) \<and> attempts st + 1 \<le> retries env \<and> full d"
    and st': "states d' (task_id env) = Some st'"
    and fields: "attempts st' = attempts st + 1" "finished_at st' = Some (clock (Suc (ticks d)))"
      "status st' = (if is_exception (call_result d env)
                     then (if attempts st + 1 \<le> retries env then Retrying else Failed)
                     else Completed)"
    and q: "queue d' = (if is_exception (call_result d env) \<and> attempts st + 1 \<le> retries env \<and> \<not> full d
                   then queue d @ [Some env] else queue d)"
    by blast
  from which have d': "after_pass (worker_body clock d env) = d'" by auto
  show ?thesis
    unfolding d' using susp st' fields q by blast
qed

text \<open>
  A task submitted with one retry whose callable raises: after the first pass it is
  \<open>retrying\<close>, its envelope is queued again, and its \<open>finished_at\<close> is set.
\<close>

theorem pass_stamps_finish_time_on_every_branch_witness:
  "states (dispatcher_of (submit clock0 idle_dispatcher always_raises 1 None ''t1'')\<lparr>queue := []\<rparr>) ''t1''
     = Some (new_task_state 1 None 0)
   \<and> (\<exists>st'. states (after_pass (worker_body clock0
              (dispatcher_of (submit clock0 idle_dispatcher always_raises 1 None ''t1'')\<lparr>queue := []\<rparr>)
              \<lparr>task_id = ''t1'', func = always_raises, retries = 1, env_metadata = None\<rparr>)) ''t1'' = Some st'
        \<and> attempts st' = 1 \<and> finished_at st' = Some 2 \<and> status st' = Retrying)"
proof -
  let ?d = "dispatcher_of (submit clock0 idle_dispatcher always_raises 1 None ''t1'')\<lparr>queue := []\<rparr>"
  let ?env = "\<lparr>task_id = ''t1'', func = always_raises, retries = 1, env_metadata = None\<rparr>"
  have st: "states ?d (task_id ?env) = Some (new_task_state 1 None 0)"
    by (simp add: submit_def put_def full_def idle_dispatcher_def clock0_def Let_def)
  have facts: "is_exception (call_result ?d ?env)" "ticks ?d = 1" "attempts (new_task_state 1 None 0) = 0"
    by (simp_all add: call_result_def execute_def always_raises_def submit_def put_def full_def
        idle_dispatcher_def new_task_state_def Let_def)
  from pass_stamps_finish_time_on_every_branch [OF st, of clock0] facts
  have "\<exists>st'. states (after_pass (worker_body clock0 ?d ?env)) ''t1'' = Some st'
        \<and> attempts st' = 1 \<and> finished_at st' = Some 2 \<and> status st' = Retrying"
    by (auto simp: clock0_def)
  with st show ?thesis by simp
qed

text \<open>
  The claim as the spec words it (no \<open>finished_at\<close> on a task that is \<open>retrying\<close>) fails
  on the same input.
\<close>

theorem retrying_task_has_finish_time:
  "map_option status (states (after_pass (worker_body clock0
       (dispatcher_of (submit clock0 idle_dispatcher always_raises 1 None ''t1'')\<lparr>queue := []\<rparr>)
       \<lparr>task_id = ''t1'', func = always_raises, retries = 1, env_metadata = None\<rparr>)) ''t1'')
     = Some Retrying
   \<and> map_option finished_at (states (after_pass (worker_body clock0
       (dispatcher_of (submit clock0 idle_dispatcher always_raises 1 None ''t1'')\<lparr>queue := []\<rparr>)
       \<lparr>task_id = ''t1'', func = always_raises, retries = 1, env_metadata = None\<rparr>)) ''t1'')
     = Some (Some 2)"
  by (simp add: worker_body_def mark_running_def execute_def record_outcome_def submit_def put_def
      full_def idle_dispatcher_def always_raises_def new_task_state_def clock0_def Let_def)


section \<open>Properties of the resolver\<close>

lemma registered_names_normal: "m \<in> set agent_paths \<Longrightarrow> lower (strip m) = m"
  by (auto simp: agent_paths_def lower_def strip_def is_space_def lower_char_def)

lemma available_registered:
  "m \<in> get_available_modules (register_agents dis flags0) \<Longrightarrow> m \<in> set agent_paths"
  by (auto simp: get_available_modules_def register_agents_def split: if_splits)

lemma enabled_subset_factories:
  "set (enabled (register_agents dis flags0)) \<subseteq> set (factories (register_agents dis flags0))"
  by (auto simp: register_agents_def)

text \<open>
  C4. For a registry as \<open>register_agents\<close> builds it: a requested module name that is not
  empty, is registered and is enabled is what resolution returns, whatever the free
  text. (Registered names are lower-case and carry no white space, so the
  normalisation of the first branch leaves them as they are.)
\<close>

theorem explicit_module_wins:
  assumes "requested \<noteq> []"
    and "requested \<in> get_available_modules (register_agents dis flags0)"
    and "is_module_enabled (register_agents dis flags0) flags requested"
  shows "resolve_module (register_agents dis flags0) flags (Some requested) input = Inr requested"
proof -
  from assms(2) have "lower (strip requested) = requested"
    by (intro registered_names_normal available_registered)
  with assms show ?thesis
    by (simp add: resolve_module_def or_empty_def)
qed

theorem explicit_module_wins_witness:
  "''logistics'' \<noteq> [] \<and> ''logistics'' \<in> get_available_modules (register_agents False [])
   \<and> is_module_enabled (register_agents False []) [] ''logistics''
   \<and> resolve_module (register_agents False []) [] (Some ''logistics'') (Some ''sale sale revenue'')
       = Inr ''logistics''"
proof -
  have a: "''logistics'' \<noteq> []" by simp
  have b: "''logistics'' \<in> get_available_modules (register_agents False [])"
    by (simp add: get_available_modules_def register_agents_def agent_paths_def)
  have c: "is_module_enabled (register_agents False []) [] ''logistics''"
    by (simp add: is_module_enabled_def get_enabled_modules_def register_agents_def agent_paths_def)
  from explicit_module_wins [OF a b c] a b c show ?thesis by simp
qed

lemma sorted_first_Min: "xs \<noteq> [] \<Longrightarrow> sorted_first xs = Min (set xs)"
proof -
  assume ne: "xs \<noteq> []"
  then have ne': "sort xs \<noteq> []" by (metis length_0_conv length_sort)
  then obtain y ys where s: "sort xs = y # ys" by (cases "sort xs") auto
  have "sorted (sort xs)" by simp
  then have "sorted (y # ys)" by (simp only: s)
  then have "\<forall>z \<in> set (y # ys). y \<le> z" by auto
  moreover have "set (y # ys) = set xs"
  proof -
    have "set (y # ys) = set (sort xs)" by (simp only: s)
    then show ?thesis by simp
  qed
  ultimately have "Min (set xs) = y"
    by (intro Min_eqI) auto
  with s show ?thesis by (simp add: sorted_first_def)
qed


text \<open>
  C6, as the code has it. The default module is \<open>inference\<close> when the registry's enabled
  set contains it, else the least enabled name in lexicographic order; when the
  enabled set is empty it is \<open>inference\<close> again if that is registered, else the least
  registered name; with nothing registered \<open>RuntimeError\<close> is raised, and only then.
  Resolution returns this default (or raises) whenever the request names no valid
  module and inference yields no enabled one.
\<close>

theorem default_module_fallback:
  assumes sub: "set (enabled r) \<subseteq> set (factories r)"
  shows "default_module r =
      (if enabled r \<noteq> [] then
         (if ''inference'' \<in> set (enabled r) then Inr ''inference'' else Inr (Min (set (enabled r))))
       else if factories r \<noteq> [] then
         (if ''inference'' \<in> set (factories r) then Inr ''inference'' else Inr (Min (set (factories r))))
       else Inl (RuntimeError ''No agents are registered in the registry.''))
    \<and> (isl (default_module r) \<longleftrightarrow> factories r = [])
    \<and> (\<not> valid_request r flags requested_module
        \<and> (\<forall>m. infer_module r (or_empty input) = Some m \<longrightarrow> \<not> is_module_enabled r flags m)
        \<longrightarrow> resolve_module r flags requested_module input = default_module r)"
proof (intro conjI)
  show "default_module r =
      (if enabled r \<noteq> [] then
         (if ''inference'' \<in> set (enabled r) then Inr ''inference'' else Inr (Min (set (enabled r))))
       else if factories r \<noteq> [] then
         (if ''inference'' \<in> set (factories r) then Inr ''inference'' else Inr (Min (set (factories r))))
       else Inl (RuntimeError ''No agents are registered in the registry.''))"
    by (simp add: default_module_def get_enabled_modules_def get_available_modules_def sorted_first_Min)
  show "isl (default_module r) \<longleftrightarrow> factories r = []"
    using sub
    by (auto simp: default_module_def get_enabled_modules_def get_available_modules_def)
  show "\<not> valid_request r flags requested_module
        \<and> (\<forall>m. infer_module r (or_empty input) = Some m \<longrightarrow> \<not> is_module_enabled r flags m)
        \<longrightarrow> resolve_module r flags requested_module input = default_module r"
    by (auto simp: resolve_module_def valid_request_def Let_def split: option.splits)
qed

theorem default_module_fallback_witness:
  "set (enabled (register_agents False [''sales'', ''logistics''])) \<subseteq> set (factories (register_agents False [''sales'', ''logistics'']))
   \<and> default_module (register_agents False [''sales'', ''logistics'']) = Inr ''logistics''
   \<and> \<not> isl (default_module (register_agents False [''sales'', ''logistics'']))
   \<and> resolve_module (register_agents False [''sales'', ''logistics'']) [''sales'', ''logistics''] (Some ''accounting'') (Some ''invoice'')
       = Inr ''logistics''"
proof -
  let ?r = "register_agents False [''sales'', ''logistics'']"
  let ?flags = "[''sales'', ''logistics'']"
  have r: "enabled ?r = [''sales'', ''logistics'']" "factories ?r = agent_paths"
    by (simp_all add: register_agents_def agent_paths_def)
  have sub: "set (enabled ?r) \<subseteq> set (factories ?r)"
    by (simp add: r agent_paths_def)
  have m: "Min (set (enabled ?r)) = ''logistics''"
    by (simp add: r)
  have inv: "\<not> valid_request ?r ?flags (Some ''accounting'')"
    by code_simp
  have inf: "infer_module ?r (or_empty (Some ''invoice'')) = Some ''accounting''"
    by code_simp
  have dis: "\<not> is_module_enabled ?r ?flags ''accounting''"
    by code_simp
  from default_module_fallback [OF sub, of ?flags "Some ''accounting''" "Some ''invoice''"] inv inf dis m sub
  show ?thesis by (simp add: r)
qed

text \<open>
  With the feature flags naming only an unknown module, nothing is enabled and
  \<open>inference\<close> itself counts as disabled; the default is still \<open>inference\<close>, which is
  neither the first registered module nor the least one.
\<close>

theorem default_prefers_inference_over_first_available:
  "default_module (register_agents False [''bogus'']) = Inr ''inference''
   \<and> get_enabled_modules (register_agents False [''bogus'']) = {}
   \<and> is_module_enabled (register_agents False [''bogus'']) [''bogus''] ''inference'' = False
   \<and> hd (factories (register_agents False [''bogus''])) = ''sales''
   \<and> sorted_first (factories (register_agents False [''bogus''])) = ''accounting''"
  by (simp add: default_module_def register_agents_def agent_paths_def get_enabled_modules_def
      get_available_modules_def is_module_enabled_def sorted_first_def)


lemma max_by_count_first:
  "\<exists>pre post. best # items = pre @ max_by_count best items # post
     \<and> (\<forall>x\<in>set pre. snd x < snd (max_by_count best items))
     \<and> (\<forall>x\<in>set post. snd x \<le> snd (max_by_count best items))"
proof (induction items arbitrary: best)
  case Nil
  have "[best] = [] @ max_by_count best [] # []" by simp
  then show ?case by fastforce
next
  case (Cons item items)
  define b where "b = (if snd item > snd best then item else best)"
  define w where "w = max_by_count b items"
  from Cons.IH [of b] obtain pre post where dec: "b # items = pre @ w # post"
    and lt: "\<forall>x\<in>set pre. snd x < snd w" and le: "\<forall>x\<in>set post. snd x \<le> snd w"
    unfolding w_def by blast
  have w: "max_by_count best (item # items) = w" by (simp add: w_def b_def)
  have b_best: "snd best \<le> snd b" and b_item: "snd item \<le> snd b"
    by (simp_all add: b_def)
  show ?case
  proof (cases pre)
    case Nil
    with dec have bw: "b = w" and post: "items = post" by simp_all
    show ?thesis
    proof (cases "snd item > snd best")
      case True
      then have "b = item" by (simp add: b_def)
      with bw post have "best # item # items = [best] @ w # post" by simp
      moreover from True \<open>b = item\<close> bw have "\<forall>x\<in>set [best]. snd x < snd w" by simp
      ultimately show ?thesis unfolding w using le by blast
    next
      case False
      then have "b = best" by (simp add: b_def)
      with bw post have "best # item # items = [] @ w # (item # post)" by simp
      moreover from b_item bw le have "\<forall>x\<in>set (item # post). snd x \<le> snd w" by simp
      ultimately show ?thesis unfolding w by (metis empty_iff empty_set)
    qed
  next
    case (Cons p pre2)
    with dec have p: "p = b" and items: "items = pre2 @ w # post" by simp_all
    from lt Cons p have blt: "snd b < snd w" by simp
    have "best # item # items = (best # item # pre2) @ w # post" using items by simp
    moreover have "\<forall>x\<in>set (best # item # pre2). snd x < snd w"
      using blt lt Cons b_best b_item by auto
    ultimately show ?thesis unfolding w using le by blast
  qed
qed

lemma map_filter_split:
  "map f (filter P xs) = pre @ y # post \<Longrightarrow>
     \<exists>pre' x post'. xs = pre' @ x # post' \<and> P x \<and> f x = y
        \<and> map f (filter P pre') = pre \<and> map f (filter P post') = post"
proof (induction xs arbitrary: pre)
  case Nil
  then show ?case by simp
next
  case (Cons a xs)
  show ?case
  proof (cases "P a")
    case False
    with Cons.prems have "map f (filter P xs) = pre @ y # post" by simp
    from Cons.IH [OF this] obtain pre' x post' where
      "xs = pre' @ x # post'" "P x" "f x = y" "map f (filter P pre') = pre"
      "map f (filter P post') = post" by blast
    with False have "a # xs = (a # pre') @ x # post' \<and> P x \<and> f x = y
        \<and> map f (filter P (a # pre')) = pre \<and> map f (filter P post') = post" by simp
    then show ?thesis by blast
  next
    case True
    show ?thesis
    proof (cases pre)
      case Nil
      with True Cons.prems have "a # xs = [] @ a # xs \<and> P a \<and> f a = y
        \<and> map f (filter P []) = pre \<and> map f (filter P xs) = post" by simp
      then show ?thesis by blast
    next
      case (Cons p pre2)
      with True Cons.prems have fa: "f a = p" and rest: "map f (filter P xs) = pre2 @ y # post" by simp_all
      from Cons.IH [OF rest] obtain pre' x post' where
        "xs = pre' @ x # post'" "P x" "f x = y" "map f (filter P pre') = pre2"
        "map f (filter P post') = post" by blast
      with True fa Cons have "a # xs = (a # pre') @ x # post' \<and> P x \<and> f x = y
        \<and> map f (filter P (a # pre')) = pre \<and> map f (filter P post') = post" by simp
      then show ?thesis by blast
    qed
  qed
qed


lemma module_hints_distinct: "distinct (map fst module_hints)"
  by (simp add: module_hints_def)

lemma keyword_score_entry:
  "(m, hints) \<in> set module_hints \<Longrightarrow> keyword_score prompt m = hint_count (lower prompt) hints"
  using module_hints_distinct by (simp add: keyword_score_def)

lemma keyword_score_unknown:
  "m \<notin> fst ` set module_hints \<Longrightarrow> keyword_score prompt m = 0"
  by (simp add: keyword_score_def map_of_eq_None_iff [THEN iffD2])

lemma strip_empty_iff: "strip s = [] \<longleftrightarrow> (\<forall>c\<in>set s. is_space c)"
proof -
  have "strip s = [] \<longleftrightarrow> (\<forall>c\<in>set (dropWhile is_space s). is_space c)"
    by (simp add: strip_def dropWhile_eq_Nil_conv)
  also have "\<dots> \<longleftrightarrow> dropWhile is_space s = []"
  proof
    assume all: "\<forall>c\<in>set (dropWhile is_space s). is_space c"
    show "dropWhile is_space s = []"
    proof (rule ccontr)
      assume ne: "dropWhile is_space s \<noteq> []"
      then have "\<not> is_space (hd (dropWhile is_space s))" by (rule hd_dropWhile)
      moreover from ne have "hd (dropWhile is_space s) \<in> set (dropWhile is_space s)" by simp
      ultimately show False using all by blast
    qed
  next
    assume "dropWhile is_space s = []"
    then show "\<forall>c\<in>set (dropWhile is_space s). is_space c" by (simp only: list.set ball_empty)
  qed
  also have "\<dots> \<longleftrightarrow> (\<forall>c\<in>set s. is_space c)"
    by (simp add: dropWhile_eq_Nil_conv)
  finally show ?thesis .
qed

lemma count_sub_positive: "0 < count_sub sub t \<Longrightarrow> sub \<noteq> [] \<Longrightarrow> hd sub \<in> set t"
proof (induction sub t rule: count_sub.induct)
  case (1 sub)
  then show ?case by simp
next
  case (2 sub c cs)
  show ?case
  proof (cases "prefix sub (c # cs)")
    case True
    with "2.prems"(2) have "hd sub = c" by (cases sub) auto
    then show ?thesis by simp
  next
    case False
    with "2.prems" have "0 < count_sub sub cs" by simp
    with "2.IH"(3) [OF "2.prems"(2) False] "2.prems"(2) show ?thesis by simp
  qed
qed

lemma hint_count_positive:
  "0 < hint_count text hints \<Longrightarrow> \<exists>hint\<in>set hints. hint \<noteq> [] \<and> 0 < count_sub hint text"
proof (rule ccontr)
  assume pos: "0 < hint_count text hints"
    and none: "\<not> (\<exists>hint\<in>set hints. hint \<noteq> [] \<and> 0 < count_sub hint text)"
  then have "\<forall>x\<in>set (map (\<lambda>hint. count_sub hint text) (filter (\<lambda>hint. hint \<noteq> []) hints)). x = 0"
    by auto
  then have "hint_count text hints = 0"
    unfolding hint_count_def by (simp add: sum_list_eq_0_iff)
  with pos show False by simp
qed

lemma hints_start_with_letter:
  "(m, hints) \<in> set module_hints \<Longrightarrow> hint \<in> set hints \<Longrightarrow> hint \<noteq> [] \<Longrightarrow> \<not> is_space (hd hint)"
  by (auto simp: module_hints_def is_space_def)

lemma positive_score_not_blank:
  assumes "0 < keyword_score prompt m"
  shows "strip (lower prompt) \<noteq> []"
proof -
  from assms obtain hints where entry: "map_of module_hints m = Some hints"
    and pos: "0 < hint_count (lower prompt) hints"
    by (auto simp: keyword_score_def split: option.splits)
  from entry have mem: "(m, hints) \<in> set module_hints" by (rule map_of_SomeD)
  from hint_count_positive [OF pos] obtain hint where
    hint: "hint \<in> set hints" "hint \<noteq> []" "0 < count_sub hint (lower prompt)" by blast
  from count_sub_positive [OF hint(3,2)] have "hd hint \<in> set (lower prompt)" .
  moreover from hints_start_with_letter [OF mem hint(1,2)] have "\<not> is_space (hd hint)" .
  ultimately show ?thesis by (auto simp: strip_empty_iff)
qed

lemma scores_of_empty_iff:
  "scores_of r (lower prompt) = [] \<longleftrightarrow> (\<forall>m\<in>get_available_modules r. keyword_score prompt m = 0)"
proof
  assume empty: "scores_of r (lower prompt) = []"
  show "\<forall>m\<in>get_available_modules r. keyword_score prompt m = 0"
  proof
    fix m assume av: "m \<in> get_available_modules r"
    show "keyword_score prompt m = 0"
    proof (cases "m \<in> fst ` set module_hints")
      case False
      then show ?thesis by (rule keyword_score_unknown)
    next
      case True
      then obtain hints where mem: "(m, hints) \<in> set module_hints" by auto
      with empty av have "hint_count (lower prompt) hints = 0"
        by (auto simp: scores_of_def filter_empty_conv)
      with keyword_score_entry [OF mem] show ?thesis by simp
    qed
  qed
next
  assume zero: "\<forall>m\<in>get_available_modules r. keyword_score prompt m = 0"
  have "\<not> (m \<in> get_available_modules r \<and> hint_count (lower prompt) hints \<noteq> 0)"
    if "(m, hints) \<in> set module_hints" for m hints
    using zero keyword_score_entry [OF that, of prompt] by auto
  then show "scores_of r (lower prompt) = []"
    by (auto simp: scores_of_def filter_empty_conv)
qed

lemma infer_module_None_iff:
  "infer_module r prompt = None \<longleftrightarrow> (\<forall>m\<in>get_available_modules r. keyword_score prompt m = 0)"
proof (cases "strip (lower prompt) = []")
  case True
  then have "keyword_score prompt m = 0" for m
    using positive_score_not_blank [of prompt m] by auto
  with True show ?thesis by (simp add: infer_module_def)
next
  case False
  then have "infer_module r prompt = None \<longleftrightarrow> scores_of r (lower prompt) = []"
    by (simp add: infer_module_def split: list.splits)
  then show ?thesis by (simp add: scores_of_empty_iff)
qed

lemma infer_module_Some:
  assumes "infer_module r prompt = Some m"
  shows "\<exists>pre hints post. module_hints = pre @ (m, hints) # post
     \<and> m \<in> get_available_modules r \<and> 0 < keyword_score prompt m
     \<and> (\<forall>(n, h)\<in>set pre. n \<in> get_available_modules r \<longrightarrow> keyword_score prompt n < keyword_score prompt m)
     \<and> (\<forall>(n, h)\<in>set post. n \<in> get_available_modules r \<longrightarrow> keyword_score prompt n \<le> keyword_score prompt m)"
proof -
  define t where "t = lower prompt"
  define P where "P = (\<lambda>(name, hints). name \<in> get_available_modules r \<and> hint_count t hints \<noteq> 0)"
  define f where "f = (\<lambda>(name :: string, hints). (name, hint_count t hints))"
  from assms obtain item items where sc: "scores_of r t = item # items"
    and m: "m = fst (max_by_count item items)"
    by (auto simp: infer_module_def t_def Let_def split: if_splits list.splits)
  define w where "w = max_by_count item items"
  from max_by_count_first [of item items] obtain spre spost where
    sdec: "item # items = spre @ w # spost"
    and slt: "\<forall>x\<in>set spre. snd x < snd w" and sle: "\<forall>x\<in>set spost. snd x \<le> snd w"
    unfolding w_def by blast
  have "map f (filter P module_hints) = spre @ w # spost"
    using sc sdec by (simp add: scores_of_def f_def P_def)
  from map_filter_split [OF this] obtain pre x post where
    dec: "module_hints = pre @ x # post" and Px: "P x" and fx: "f x = w"
    and pre: "map f (filter P pre) = spre" and post: "map f (filter P post) = spost"
    by blast
  obtain n hints where x: "x = (n, hints)" by (cases x)
  from fx x have wx: "w = (n, hint_count t hints)" by (simp add: f_def)
  from wx m have n: "n = m" and c: "snd w = hint_count t hints"
    by (simp_all add: w_def [symmetric])
  from x n have mem: "(m, hints) \<in> set module_hints" by (simp add: dec)
  have score_m: "keyword_score prompt m = snd w"
    using keyword_score_entry [OF mem, of prompt] c by (simp add: t_def)
  from Px x n have av: "m \<in> get_available_modules r" and pos: "0 < snd w"
    using c by (auto simp: P_def)
  have before: "keyword_score prompt k < snd w"
    if "(k, h) \<in> set pre" "k \<in> get_available_modules r" for k h
  proof -
    from that(1) have "(k, h) \<in> set module_hints" by (simp add: dec)
    then have sk: "keyword_score prompt k = hint_count t h"
      by (simp add: keyword_score_entry t_def)
    show ?thesis
    proof (cases "hint_count t h = 0")
      case True
      with sk pos show ?thesis by simp
    next
      case False
      with that have "f (k, h) \<in> set spre"
        unfolding pre [symmetric] by (auto simp: P_def)
      with slt have "snd (f (k, h)) < snd w" by blast
      with sk show ?thesis by (simp add: f_def)
    qed
  qed
  have after: "keyword_score prompt k \<le> snd w"
    if "(k, h) \<in> set post" "k \<in> get_available_modules r" for k h
  proof -
    from that(1) have "(k, h) \<in> set module_hints" by (simp add: dec)
    then have sk: "keyword_score prompt k = hint_count t h"
      by (simp add: keyword_score_entry t_def)
    show ?thesis
    proof (cases "hint_count t h = 0")
      case True
      with sk show ?thesis by simp
    next
      case False
      with that have "f (k, h) \<in> set spost"
        unfolding post [symmetric] by (auto simp: P_def)
      with sle have "snd (f (k, h)) \<le> snd w" by blast
      with sk show ?thesis by (simp add: f_def)
    qed
  qed
  from dec x n av pos before after show ?thesis
    unfolding score_m by blast
qed


lemma module_hints_names_nonempty: "(m, hints) \<in> set module_hints \<Longrightarrow> m \<noteq> []"
  by (auto simp: module_hints_def)

lemma resolve_module_without_valid_request:
  assumes "\<not> valid_request r flags requested_module"
  shows "resolve_module r flags requested_module input =
      (case infer_module r (or_empty input) of
         None \<Rightarrow> default_module r
       | Some m \<Rightarrow> if is_module_enabled r flags m then Inr m else default_module r)"
proof (cases "infer_module r (or_empty input)")
  case None
  with assms show ?thesis
    by (auto simp: resolve_module_def valid_request_def Let_def)
next
  case (Some m)
  from infer_module_Some [OF Some] have "m \<noteq> []"
    using module_hints_names_nonempty by (metis in_set_conv_decomp)
  with assms Some show ?thesis
    by (auto simp: resolve_module_def valid_request_def Let_def)
qed

text \<open>
  C3, as the code has it. Without a valid explicit request, inference scores every
  registered module, enabled or not, by the substring counts of its keywords in the
  lower-cased text; it yields the first module of the table whose score is positive
  and greatest, and nothing when all scores are zero. Resolution returns the inferred
  module when it is enabled and the default module otherwise. For a text in which
  only keywords of \<open>logistics\<close> occur, that is \<open>logistics\<close> when it is enabled and the
  default module when it is not.
\<close>

theorem inference_ranks_registered_modules:
  "(infer_module r prompt = None \<longleftrightarrow> (\<forall>m\<in>get_available_modules r. keyword_score prompt m = 0))
   \<and> (\<forall>m. infer_module r prompt = Some m \<longrightarrow>
          m \<in> get_available_modules r \<and> 0 < keyword_score prompt m
        \<and> (\<forall>n\<in>get_available_modules r. keyword_score prompt n \<le> keyword_score prompt m)
        \<and> (\<exists>pre hints post. module_hints = pre @ (m, hints) # post
             \<and> (\<forall>(n, h)\<in>set pre. n \<in> get_available_modules r
                   \<longrightarrow> keyword_score prompt n < keyword_score prompt m)))
   \<and> (\<not> valid_request r flags requested_module \<longrightarrow>
         resolve_module r flags requested_module input =
           (case infer_module r (or_empty input) of
              None \<Rightarrow> default_module r
            | Some m \<Rightarrow> if is_module_enabled r flags m then Inr m else default_module r))
   \<and> (\<not> valid_request r flags requested_module
        \<and> ''logistics'' \<in> get_available_modules r
        \<and> 0 < keyword_score (or_empty input) ''logistics''
        \<and> (\<forall>n\<in>get_available_modules r. n \<noteq> ''logistics'' \<longrightarrow> keyword_score (or_empty input) n = 0)
       \<longrightarrow> resolve_module r flags requested_module input =
             (if is_module_enabled r flags ''logistics'' then Inr ''logistics'' else default_module r))"
proof (intro conjI allI impI)
  show "infer_module r prompt = None \<longleftrightarrow> (\<forall>m\<in>get_available_modules r. keyword_score prompt m = 0)"
    by (rule infer_module_None_iff)
next
  fix m assume inf: "infer_module r prompt = Some m"
  from infer_module_Some [OF inf] obtain pre hints post where
    dec: "module_hints = pre @ (m, hints) # post"
    and av: "m \<in> get_available_modules r" and pos: "0 < keyword_score prompt m"
    and before: "\<forall>(n, h)\<in>set pre. n \<in> get_available_modules r
        \<longrightarrow> keyword_score prompt n < keyword_score prompt m"
    and after: "\<forall>(n, h)\<in>set post. n \<in> get_available_modules r
        \<longrightarrow> keyword_score prompt n \<le> keyword_score prompt m"
    by blast
  show "m \<in> get_available_modules r" by (rule av)
  show "0 < keyword_score prompt m" by (rule pos)
  show "\<forall>n\<in>get_available_modules r. keyword_score prompt n \<le> keyword_score prompt m"
  proof
    fix n assume n: "n \<in> get_available_modules r"
    show "keyword_score prompt n \<le> keyword_score prompt m"
    proof (cases "n \<in> fst ` set module_hints")
      case False
      then show ?thesis by (simp add: keyword_score_unknown)
    next
      case True
      then obtain h where "(n, h) \<in> set module_hints" by auto
      then have "(n, h) \<in> set pre \<or> (n, h) = (m, hints) \<or> (n, h) \<in> set post"
        by (auto simp: dec)
      with before after n show ?thesis by fastforce
    qed
  qed
  show "\<exists>pre hints post. module_hints = pre @ (m, hints) # post
      \<and> (\<forall>(n, h)\<in>set pre. n \<in> get_available_modules r
            \<longrightarrow> keyword_score prompt n < keyword_score prompt m)"
    using dec before by blast
next
  assume "\<not> valid_request r flags requested_module"
  then show "resolve_module r flags requested_module input =
      (case infer_module r (or_empty input) of
         None \<Rightarrow> default_module r
       | Some m \<Rightarrow> if is_module_enabled r flags m then Inr m else default_module r)"
    by (rule resolve_module_without_valid_request)
next
  assume a: "\<not> valid_request r flags requested_module
        \<and> ''logistics'' \<in> get_available_modules r
        \<and> 0 < keyword_score (or_empty input) ''logistics''
        \<and> (\<forall>n\<in>get_available_modules r. n \<noteq> ''logistics'' \<longrightarrow> keyword_score (or_empty input) n = 0)"
  have "infer_module r (or_empty input) = Some ''logistics''"
  proof (cases "infer_module r (or_empty input)")
    case None
    with a show ?thesis by (auto simp: infer_module_None_iff)
  next
    case (Some m)
    from infer_module_Some [OF Some] have "m \<in> get_available_modules r"
      "0 < keyword_score (or_empty input) m" by auto
    with a have "m = ''logistics''" by force
    with Some show ?thesis by simp
  qed
  with a show "resolve_module r flags requested_module input =
      (if is_module_enabled r flags ''logistics'' then Inr ''logistics'' else default_module r)"
    by (simp add: resolve_module_without_valid_request)
qed

theorem inference_ranks_registered_modules_witness:
  "infer_module (register_agents False []) ''Check warehouse stock and shipping'' = Some ''logistics''
   \<and> keyword_score ''Check warehouse stock and shipping'' ''logistics'' = 3
   \<and> keyword_score ''Check warehouse stock and shipping'' ''sales''
       \<le> keyword_score ''Check warehouse stock and shipping'' ''logistics''
   \<and> \<not> valid_request (register_agents False []) [] None
   \<and> resolve_module (register_agents False []) [] None (Some ''Check warehouse stock and shipping'')
       = Inr ''logistics''
   \<and> \<not> valid_request (register_agents False [''sales'', ''accounting'']) [''sales'', ''accounting''] None
   \<and> resolve_module (register_agents False [''sales'', ''accounting'']) [''sales'', ''accounting''] None
        (Some ''Check warehouse stock and shipping'')
       = default_module (register_agents False [''sales'', ''accounting''])"
proof -
  let ?p = "''Check warehouse stock and shipping''"
  let ?r = "register_agents False []"
  let ?r' = "register_agents False [''sales'', ''accounting'']"
  let ?f' = "[''sales'', ''accounting'']"
  have inf: "infer_module ?r ?p = Some ''logistics''" by code_simp
  have score: "keyword_score ?p ''logistics'' = 3" by code_simp
  have nv: "\<not> valid_request ?r [] None" by code_simp
  have nv': "\<not> valid_request ?r' ?f' None" by code_simp
  have only: "''logistics'' \<in> get_available_modules ?r \<and> 0 < keyword_score (or_empty (Some ?p)) ''logistics''
      \<and> (\<forall>n\<in>get_available_modules ?r. n \<noteq> ''logistics'' \<longrightarrow> keyword_score (or_empty (Some ?p)) n = 0)"
    by code_simp
  have only': "''logistics'' \<in> get_available_modules ?r' \<and> 0 < keyword_score (or_empty (Some ?p)) ''logistics''
      \<and> (\<forall>n\<in>get_available_modules ?r'. n \<noteq> ''logistics'' \<longrightarrow> keyword_score (or_empty (Some ?p)) n = 0)"
    by code_simp
  have en: "is_module_enabled ?r [] ''logistics''" by code_simp
  have dis: "\<not> is_module_enabled ?r' ?f' ''logistics''" by code_simp
  from inference_ranks_registered_modules [of ?r ?p "[]" None "Some ?p"] nv only
  have "resolve_module ?r [] None (Some ?p) =
      (if is_module_enabled ?r [] ''logistics'' then Inr ''logistics'' else default_module ?r)"
    by blast
  with en have a: "resolve_module ?r [] None (Some ?p) = Inr ''logistics''" by simp
  from inference_ranks_registered_modules [of ?r' ?p ?f' None "Some ?p"] nv' only'
  have "resolve_module ?r' ?f' None (Some ?p) =
      (if is_module_enabled ?r' ?f' ''logistics'' then Inr ''logistics'' else default_module ?r')"
    by blast
  with dis have b: "resolve_module ?r' ?f' None (Some ?p) = default_module ?r'" by simp
  have sales: "''sales'' \<in> get_available_modules ?r" by code_simp
  from inference_ranks_registered_modules [of ?r ?p "[]" None "Some ?p"] inf sales
  have c: "keyword_score ?p ''sales'' \<le> keyword_score ?p ''logistics''" by blast
  from inf score nv nv' a b c show ?thesis by simp
qed

text \<open>
  The claim as the spec words it scores the enabled modules only. Here \<open>sales\<close> is the
  one enabled module with a match, but \<open>logistics\<close>, registered and disabled, scores
  higher: the resolver falls back to the default, \<open>purchasing\<close>.
\<close>

theorem disabled_winner_hides_enabled_match:
  "resolve_module (register_agents False [''sales'', ''purchasing'']) [''sales'', ''purchasing''] None
      (Some ''stock stock sale'') = Inr ''purchasing''
   \<and> is_module_enabled (register_agents False [''sales'', ''purchasing'']) [''sales'', ''purchasing''] ''sales''
   \<and> is_module_enabled (register_agents False [''sales'', ''purchasing'']) [''sales'', ''purchasing''] ''purchasing''
   \<and> enabled (register_agents False [''sales'', ''purchasing'']) = [''sales'', ''purchasing'']
   \<and> keyword_score ''stock stock sale'' ''sales'' = 1
   \<and> keyword_score ''stock stock sale'' ''purchasing'' = 0
   \<and> keyword_score ''stock stock sale'' ''logistics'' = 2"
  by code_simp

text \<open>
  Counting substrings, the keyword \<open>transport\<close> of \<open>logistics\<close> contains the keyword \<open>po\<close>
  of \<open>purchasing\<close>; the tie goes to the earlier entry of the table.
\<close>

lemma transport_also_matches_purchasing:
  "keyword_score ''transport'' ''logistics'' = 1 \<and> keyword_score ''transport'' ''purchasing'' = 1
   \<and> resolve_module (register_agents False []) [] None (Some ''transport'') = Inr ''purchasing''"
  by code_simp


section \<open>Properties of the guardrails\<close>

text \<open>
  C7. A module has one null-rate check, complete, with threshold \<open>max_null_rate\<close>. When
  the tool returns a ratio, the guardrail fails exactly when the ratio is strictly
  greater than the threshold; when the tool returns an error (or text that is no
  JSON) it fails. The tool is called once. With threshold 0.1, a ratio of 0.15 fails
  and a ratio of 0.05 passes (the witness).
\<close>

theorem null_rate_fails_above_threshold:
  assumes cfg: "guardrails name = Some (Single check) \<or> guardrails name = Some (Many [check])"
    and complete: "complete_check check" and thr: "nr_max_null_rate check = Some threshold"
  shows "(tool (payload_of check) = Reply (Rate (Some ratio)) \<longrightarrow>
            (ok (fst (run_null_rate_guardrail s name guardrails tool)) \<longleftrightarrow> \<not> threshold < ratio))
       \<and> ((\<exists>e. tool (payload_of check) = Reply (Null_rate_error e) \<or> tool (payload_of check) = Invalid_json e) \<longrightarrow>
            \<not> ok (fst (run_null_rate_guardrail s name guardrails tool)))
       \<and> null_rate_calls (snd (run_null_rate_guardrail s name guardrails tool))
            = null_rate_calls s @ [payload_of check]"
proof -
  from complete thr have nk: "\<not> no_null_rate_keys check"
    by (auto simp: complete_check_def no_null_rate_keys_def)
  from cfg nk have run: "run_null_rate_guardrail s name guardrails tool = run_null_rate_checks s tool [check]"
    by (auto simp: run_null_rate_guardrail_def)
  show ?thesis
    unfolding run using complete thr
    by (auto simp: complete_check_def payload_of_def success_def failure_def Let_def
        split: tool_output.splits null_rate_reply.splits option.splits)
qed

theorem null_rate_fails_above_threshold_witness:
  "complete_check example_check \<and> nr_max_null_rate example_check = Some (1 / 10)
   \<and> \<not> ok (fst (run_null_rate_guardrail initial_supervisor ''sales'' (null_rate example_guardrails)
              (\<lambda>p. Reply (Rate (Some (15 / 100))))))
   \<and> ok (fst (run_null_rate_guardrail initial_supervisor ''sales'' (null_rate example_guardrails)
              (\<lambda>p. Reply (Rate (Some (5 / 100))))))
   \<and> \<not> ok (fst (run_null_rate_guardrail initial_supervisor ''sales'' (null_rate example_guardrails)
              (\<lambda>p. Reply (Null_rate_error ''connection refused''))))"
proof -
  have cfg: "null_rate example_guardrails ''sales'' = Some (Single example_check)
      \<or> null_rate example_guardrails ''sales'' = Some (Many [example_check])"
    by (simp add: example_guardrails_def)
  have complete: "complete_check example_check"
    by (simp add: complete_check_def example_check_def truthy_def)
  have thr: "nr_max_null_rate example_check = Some (1 / 10)"
    by (simp add: example_check_def)
  have "\<not> ok (fst (run_null_rate_guardrail initial_supervisor ''sales'' (null_rate example_guardrails)
              (\<lambda>p. Reply (Rate (Some (15 / 100))))))"
    using null_rate_fails_above_threshold [where guardrails = "null_rate example_guardrails"
        and name = "''sales''" and check = example_check and threshold = "1 / 10"
        and tool = "\<lambda>p. Reply (Rate (Some (15 / 100)))" and ratio = "15 / 100"
        and s = initial_supervisor] cfg complete thr
    by simp
  moreover have "ok (fst (run_null_rate_guardrail initial_supervisor ''sales'' (null_rate example_guardrails)
              (\<lambda>p. Reply (Rate (Some (5 / 100))))))"
    using null_rate_fails_above_threshold [where guardrails = "null_rate example_guardrails"
        and name = "''sales''" and check = example_check and threshold = "1 / 10"
        and tool = "\<lambda>p. Reply (Rate (Some (5 / 100)))" and ratio = "5 / 100"
        and s = initial_supervisor] cfg complete thr
    by simp
  moreover have "\<not> ok (fst (run_null_rate_guardrail initial_supervisor ''sales'' (null_rate example_guardrails)
              (\<lambda>p. Reply (Null_rate_error ''connection refused''))))"
    using null_rate_fails_above_threshold [where guardrails = "null_rate example_guardrails"
        and name = "''sales''" and check = example_check and threshold = "1 / 10"
        and tool = "\<lambda>p. Reply (Null_rate_error ''connection refused'')"
        and s = initial_supervisor] cfg complete thr
    by blast
  ultimately show ?thesis using complete thr by simp
qed

lemma null_rate_checks_keep_cache:
  "freshness_cache (snd (run_null_rate_checks s tool checks)) = freshness_cache s
   \<and> freshness_calls (snd (run_null_rate_checks s tool checks)) = freshness_calls s"
  by (induction s tool checks rule: run_null_rate_checks.induct)
     (auto simp: Let_def split: tool_output.splits null_rate_reply.splits option.splits)

lemma null_rate_guardrail_keeps_cache:
  "freshness_cache (snd (run_null_rate_guardrail s name guardrails tool)) = freshness_cache s"
  by (auto simp del: run_null_rate_checks.simps
      simp: run_null_rate_guardrail_def null_rate_checks_keep_cache
      split: option.splits null_rate_checks.splits)

lemma freshness_cache_entries:
  assumes "freshness_cache (snd (run_freshness_guardrail s name guardrails tool now stored_at)) k = Some entry"
  shows "freshness_cache s k = Some entry
       \<or> (k = name \<and> (\<exists>fc. guardrails name = Some fc \<and> complete_freshness fc))"
  using assms
  by (auto simp: run_freshness_guardrail_def complete_freshness_def Let_def
      split: option.splits if_splits prod.splits freshness_reply.splits tool_output.splits)

lemma reachable_cache_complete:
  assumes "reachable config s" and "freshness_cache s k = Some entry"
  shows "\<exists>fc. freshness config k = Some fc \<and> complete_freshness fc"
  using assms
proof (induction arbitrary: entry rule: reachable.induct)
  case (reachable_initial config)
  then show ?case by (simp add: initial_supervisor_def)
next
  case (reachable_freshness config s name tool now stored_at)
  from freshness_cache_entries [OF reachable_freshness.prems] reachable_freshness.IH
  show ?case by blast
next
  case (reachable_null_rate config s name tool)
  then show ?case by (simp add: null_rate_guardrail_keeps_cache)
qed

lemma incomplete_checks_skipped:
  "\<forall>c\<in>set checks. \<not> complete_check c \<Longrightarrow> run_null_rate_checks s tool checks = (success, s)"
  by (induction checks) (auto simp: complete_check_def)

text \<open>
  C10. In every state the guardrails can reach under a configuration: a freshness entry
  without table or timestamp column, and a null-rate entry (or list of entries) without
  table, column or threshold, give \<open>success\<close> and leave the state as it was, so no
  tool was called and nothing was cached.
\<close>

theorem incomplete_guardrail_is_skipped:
  assumes reach: "reachable config s"
  shows "(\<forall>fc. freshness config name = Some fc \<and> \<not> complete_freshness fc \<longrightarrow>
            run_freshness_guardrail s name (freshness config) freshness_tool now stored_at = (success, s))
       \<and> (\<forall>nc. null_rate config name = Some nc \<and> (\<forall>c\<in>set (checks_of nc). \<not> complete_check c) \<longrightarrow>
            run_null_rate_guardrail s name (null_rate config) null_rate_tool = (success, s))"
proof (intro conjI allI impI)
  fix fc assume a: "freshness config name = Some fc \<and> \<not> complete_freshness fc"
  have "freshness_cache s name = None"
  proof (cases "freshness_cache s name")
    case (Some entry)
    from reachable_cache_complete [OF reach Some] a show ?thesis by simp
  qed simp
  with a show "run_freshness_guardrail s name (freshness config) freshness_tool now stored_at = (success, s)"
    by (auto simp: run_freshness_guardrail_def complete_freshness_def Let_def)
next
  fix nc assume a: "null_rate config name = Some nc \<and> (\<forall>c\<in>set (checks_of nc). \<not> complete_check c)"
  then show "run_null_rate_guardrail s name (null_rate config) null_rate_tool = (success, s)"
    by (cases nc) (auto simp: run_null_rate_guardrail_def incomplete_checks_skipped complete_check_def)
qed

theorem incomplete_guardrail_is_skipped_witness:
  "reachable example_config after_stale_logistics
   \<and> freshness_cache after_stale_logistics ''logistics'' = Some (1, Freshness_error ''timeout'')
   \<and> run_freshness_guardrail after_stale_logistics ''sales'' (freshness example_config)
        (\<lambda>p. Reply (Freshness_error ''unreachable'')) 5 6 = (success, after_stale_logistics)
   \<and> run_null_rate_guardrail after_stale_logistics ''sales'' (null_rate example_config)
        (\<lambda>p. Reply (Null_rate_error ''unreachable'')) = (success, after_stale_logistics)"
proof -
  have reach: "reachable example_config after_stale_logistics"
    unfolding after_stale_logistics_def by (intro reachable_freshness reachable_initial)
  have cache: "freshness_cache after_stale_logistics ''logistics'' = Some (1, Freshness_error ''timeout'')"
    by (simp add: after_stale_logistics_def run_freshness_guardrail_def example_config_def
        initial_supervisor_def no_freshness_keys_def truthy_def failure_def Let_def)
  have fr: "freshness example_config ''sales''
      = Some \<lparr>fr_table = Some ''orders'', fr_timestamp_column = None, fr_ttl_seconds = Some 60\<rparr>
    \<and> \<not> complete_freshness \<lparr>fr_table = Some ''orders'', fr_timestamp_column = None, fr_ttl_seconds = Some 60\<rparr>"
    by (simp add: example_config_def complete_freshness_def truthy_def)
  have nr: "null_rate example_config ''sales''
      = Some (Single \<lparr>nr_table = Some ''orders'', nr_column = Some ''customer_id'',
                        nr_where = None, nr_max_null_rate = None\<rparr>)
    \<and> (\<forall>c\<in>set (checks_of (Single \<lparr>nr_table = Some ''orders'', nr_column = Some ''customer_id'',
                        nr_where = None, nr_max_null_rate = None\<rparr>)). \<not> complete_check c)"
    by (simp add: example_config_def complete_check_def)
  from incomplete_guardrail_is_skipped [OF reach, of "''sales''"
      "\<lambda>p. Reply (Freshness_error ''unreachable'')" 5 6 "\<lambda>p. Reply (Null_rate_error ''unreachable'')"]
    fr nr reach cache
  show ?thesis by blast
qed

lemma freshness_hit:
  assumes "guardrails name = Some fc" "complete_freshness fc"
    and "freshness_cache s name = Some (cached_at, res)" "now - cached_at < of_int (ttl_of fc)"
  shows "run_freshness_guardrail s name guardrails tool now stored_at
     = (case res of Freshness_error e \<Rightarrow> failure e | Latest x \<Rightarrow> success, s)"
  using assms
  by (auto simp: run_freshness_guardrail_def complete_freshness_def no_freshness_keys_def truthy_def
      Let_def split: freshness_reply.splits)

lemma freshness_miss:
  assumes "guardrails name = Some fc" "complete_freshness fc"
    and "\<not> cache_live s name (ttl_of fc) now"
  shows "\<exists>res. snd (run_freshness_guardrail s name guardrails tool now stored_at)
        = s\<lparr>freshness_calls := freshness_calls s @ [(fr_table fc, fr_timestamp_column fc)],
            freshness_cache := (freshness_cache s)(name \<mapsto> (stored_at, res))\<rparr>
     \<and> ((\<exists>e. tool (fr_table fc, fr_timestamp_column fc) = Invalid_json e
            \<or> tool (fr_table fc, fr_timestamp_column fc) = Reply (Freshness_error e))
          \<longrightarrow> (\<exists>e. res = Freshness_error e)
              \<and> \<not> ok (fst (run_freshness_guardrail s name guardrails tool now stored_at)))
     \<and> (ok (fst (run_freshness_guardrail s name guardrails tool now stored_at))
          \<longrightarrow> (\<exists>x. res = Latest x))"
  using assms
  by (auto simp: run_freshness_guardrail_def complete_freshness_def no_freshness_keys_def truthy_def
      cache_live_def success_def failure_def Let_def
      split: freshness_reply.splits tool_output.splits option.splits if_splits)

lemma null_rate_single_call:
  assumes "guardrails name = Some (Single check) \<or> guardrails name = Some (Many [check])"
    and "complete_check check"
  shows "null_rate_calls (snd (run_null_rate_guardrail s name guardrails tool))
     = null_rate_calls s @ [payload_of check]"
proof -
  from assms(2) have nk: "\<not> no_null_rate_keys check"
    by (auto simp: complete_check_def no_null_rate_keys_def)
  from assms(1) nk have "run_null_rate_guardrail s name guardrails tool = run_null_rate_checks s tool [check]"
    by (auto simp: run_null_rate_guardrail_def)
  then show ?thesis using assms(2)
    by (auto simp: complete_check_def payload_of_def Let_def
        split: tool_output.splits null_rate_reply.splits option.splits)
qed

lemma invoked_all_pass:
  "list_all (check_passes tool) checks \<Longrightarrow> invoked tool checks = checks"
  by (induction checks) auto

lemma invoked_nonempty:
  "checks \<noteq> [] \<Longrightarrow> invoked tool checks \<noteq> []"
  by (cases checks) auto

lemma run_null_rate_checks_calls:
  "null_rate_calls (snd (run_null_rate_checks s tool checks))
     = null_rate_calls s @ map payload_of (invoked tool (filter complete_check checks))
   \<and> (ok (fst (run_null_rate_checks s tool checks))
        \<longleftrightarrow> list_all (check_passes tool) (filter complete_check checks))"
proof (induction checks arbitrary: s)
  case Nil
  show ?case by (simp add: success_def)
next
  case (Cons check checks)
  show ?case
  proof (cases "complete_check check")
    case False
    then have "run_null_rate_checks s tool (check # checks) = run_null_rate_checks s tool checks"
      by (auto simp: complete_check_def)
    with False Cons.IH [of s] show ?thesis by simp
  next
    case True
    define s1 where "s1 = s\<lparr>null_rate_calls := null_rate_calls s @ [payload_of check]\<rparr>"
    from True obtain threshold where thr: "nr_max_null_rate check = Some threshold"
      by (auto simp: complete_check_def)
    show ?thesis
    proof (cases "check_passes tool check")
      case pass: True
      then obtain ratio where r: "tool (payload_of check) = Reply (Rate (Some ratio))" "\<not> threshold < ratio"
        by (auto simp: check_passes_def thr split: tool_output.splits null_rate_reply.splits option.splits)
      from True thr r have "run_null_rate_checks s tool (check # checks) = run_null_rate_checks s1 tool checks"
        by (simp add: complete_check_def payload_of_def [symmetric] s1_def Let_def)
      with Cons.IH [of s1] True pass show ?thesis by (simp add: s1_def)
    next
      case fail: False
      from True thr fail
      have "snd (run_null_rate_checks s tool (check # checks)) = s1
          \<and> \<not> ok (fst (run_null_rate_checks s tool (check # checks)))"
        by (auto simp: complete_check_def payload_of_def [symmetric] s1_def Let_def check_passes_def
            failure_def split: tool_output.splits null_rate_reply.splits option.splits)
      with True fail show ?thesis by (simp add: s1_def)
    qed
  qed
qed

lemma null_rate_guardrail_calls:
  "null_rate_calls (snd (run_null_rate_guardrail s name guardrails tool))
     = null_rate_calls s @ map payload_of (invoked tool (complete_checks guardrails name))
   \<and> (ok (fst (run_null_rate_guardrail s name guardrails tool))
        \<longleftrightarrow> list_all (check_passes tool) (complete_checks guardrails name))"
proof (cases "guardrails name")
  case None
  then show ?thesis by (simp add: run_null_rate_guardrail_def complete_checks_def success_def)
next
  case (Some entry)
  show ?thesis
  proof (cases entry)
    case (Single check)
    show ?thesis
    proof (cases "no_null_rate_keys check")
      case True
      then have "\<not> complete_check check" by (simp add: no_null_rate_keys_def complete_check_def truthy_def)
      with Some Single True show ?thesis
        by (simp add: run_null_rate_guardrail_def complete_checks_def success_def)
    next
      case False
      with Some Single run_null_rate_checks_calls [of s tool "[check]"] show ?thesis
        by (simp add: run_null_rate_guardrail_def complete_checks_def del: run_null_rate_checks.simps)
    qed
  next
    case (Many checks)
    with Some run_null_rate_checks_calls [of s tool checks] show ?thesis
      by (simp add: run_null_rate_guardrail_def complete_checks_def del: run_null_rate_checks.simps)
  qed
qed

text \<open>
  C2, as the code has it. Only the freshness guardrail has a cache. For a module with a
  complete freshness entry: two checks whose starts are less than the time to live
  apart call the tool at most once in total (the clock not running backwards
  during the first). When the first check finds no live cache entry it calls the
  tool once; a second check that starts less than the time to live after the result
  was stored calls nothing and changes nothing, fails if the first answer was an
  error, and passes if the first check passed; a second check that starts later
  calls the tool again. The null-rate guardrail has no cache: every run of it calls
  its tool again, once for each complete entry of the module, in order, up to and
  including the first entry whose check does not pass. So two runs call it at least
  twice when the module has a complete entry, twice for every complete entry when
  both runs pass, and twice for the entry of a module that has exactly one; the second
  run passes exactly when every complete entry passes.
\<close>

theorem freshness_verdict_is_cached:
  assumes cfg: "guardrails name = Some fc" and complete: "complete_freshness fc"
  shows "(now_a \<le> stored_a \<and> now_b - now_a < of_int (ttl_of fc) \<longrightarrow>
            length (freshness_calls (snd (run_freshness_guardrail
              (snd (run_freshness_guardrail s name guardrails tool_a now_a stored_a))
              name guardrails tool_b now_b stored_b)))
            \<le> length (freshness_calls s) + 1)
     \<and> (\<not> cache_live s name (ttl_of fc) now_a \<longrightarrow>
            freshness_calls (snd (run_freshness_guardrail s name guardrails tool_a now_a stored_a))
              = freshness_calls s @ [(fr_table fc, fr_timestamp_column fc)]
          \<and> (now_b - stored_a < of_int (ttl_of fc) \<longrightarrow>
                snd (run_freshness_guardrail
                  (snd (run_freshness_guardrail s name guardrails tool_a now_a stored_a))
                  name guardrails tool_b now_b stored_b)
                  = snd (run_freshness_guardrail s name guardrails tool_a now_a stored_a)
              \<and> ((\<exists>e. tool_a (fr_table fc, fr_timestamp_column fc) = Invalid_json e
                      \<or> tool_a (fr_table fc, fr_timestamp_column fc) = Reply (Freshness_error e)) \<longrightarrow>
                    \<not> ok (fst (run_freshness_guardrail s name guardrails tool_a now_a stored_a))
                  \<and> \<not> ok (fst (run_freshness_guardrail
                      (snd (run_freshness_guardrail s name guardrails tool_a now_a stored_a))
                      name guardrails tool_b now_b stored_b)))
              \<and> (ok (fst (run_freshness_guardrail s name guardrails tool_a now_a stored_a)) \<longrightarrow>
                    ok (fst (run_freshness_guardrail
                      (snd (run_freshness_guardrail s name guardrails tool_a now_a stored_a))
                      name guardrails tool_b now_b stored_b))))
          \<and> (of_int (ttl_of fc) \<le> now_b - stored_a \<longrightarrow>
                freshness_calls (snd (run_freshness_guardrail
                  (snd (run_freshness_guardrail s name guardrails tool_a now_a stored_a))
                  name guardrails tool_b now_b stored_b))
                  = freshness_calls s @ [(fr_table fc, fr_timestamp_column fc),
                                         (fr_table fc, fr_timestamp_column fc)]))
     \<and> (\<forall>check. (nr_guardrails name = Some (Single check) \<or> nr_guardrails name = Some (Many [check]))
            \<and> complete_check check \<longrightarrow>
            null_rate_calls (snd (run_null_rate_guardrail
              (snd (run_null_rate_guardrail s name nr_guardrails nr_tool_a)) name nr_guardrails nr_tool_b))
              = null_rate_calls s @ [payload_of check, payload_of check])
     \<and> null_rate_calls (snd (run_null_rate_guardrail
              (snd (run_null_rate_guardrail s name nr_guardrails nr_tool_a)) name nr_guardrails nr_tool_b))
          = null_rate_calls s @ map payload_of (invoked nr_tool_a (complete_checks nr_guardrails name))
                              @ map payload_of (invoked nr_tool_b (complete_checks nr_guardrails name))
     \<and> (complete_checks nr_guardrails name \<noteq> [] \<longrightarrow>
            length (null_rate_calls s) + 2
              \<le> length (null_rate_calls (snd (run_null_rate_guardrail
                   (snd (run_null_rate_guardrail s name nr_guardrails nr_tool_a)) name nr_guardrails nr_tool_b))))
     \<and> (ok (fst (run_null_rate_guardrail s name nr_guardrails nr_tool_a))
          \<and> ok (fst (run_null_rate_guardrail
                 (snd (run_null_rate_guardrail s name nr_guardrails nr_tool_a)) name nr_guardrails nr_tool_b)) \<longrightarrow>
            null_rate_calls (snd (run_null_rate_guardrail
              (snd (run_null_rate_guardrail s name nr_guardrails nr_tool_a)) name nr_guardrails nr_tool_b))
              = null_rate_calls s @ map payload_of (complete_checks nr_guardrails name)
                                  @ map payload_of (complete_checks nr_guardrails name))
     \<and> (ok (fst (run_null_rate_guardrail
                 (snd (run_null_rate_guardrail s name nr_guardrails nr_tool_a)) name nr_guardrails nr_tool_b))
          \<longleftrightarrow> list_all (check_passes nr_tool_b) (complete_checks nr_guardrails name))"
proof -
  define first where "first = run_freshness_guardrail s name guardrails tool_a now_a stored_a"
  define second where "second = run_freshness_guardrail (snd first) name guardrails tool_b now_b stored_b"
  define p where "p = (fr_table fc, fr_timestamp_column fc)"
  define ttl where "ttl = ttl_of fc"
  note miss = freshness_miss [where guardrails = guardrails and name = name and fc = fc, OF cfg complete]
  note hit = freshness_hit [where guardrails = guardrails and name = name and fc = fc, OF cfg complete]
  have miss1: "\<exists>res. snd first = s\<lparr>freshness_calls := freshness_calls s @ [p],
                                     freshness_cache := (freshness_cache s)(name \<mapsto> (stored_a, res))\<rparr>
        \<and> ((\<exists>e. tool_a p = Invalid_json e \<or> tool_a p = Reply (Freshness_error e))
             \<longrightarrow> (\<exists>e. res = Freshness_error e) \<and> \<not> ok (fst first))
        \<and> (ok (fst first) \<longrightarrow> (\<exists>x. res = Latest x))"
    if "\<not> cache_live s name ttl now_a"
    using miss [where s = s and now = now_a and tool = tool_a and stored_at = stored_a] that
    unfolding first_def p_def ttl_def by blast
  have hit_any: "snd (run_freshness_guardrail t name guardrails tool now stored_at) = t"
    if "cache_live t name ttl now" for t tool now stored_at
  proof -
    from that obtain cached_at res where "freshness_cache t name = Some (cached_at, res)"
      "now - cached_at < of_int ttl"
      by (auto simp: cache_live_def split: option.splits)
    from hit [OF this(1)] this(2) show ?thesis by (simp add: ttl_def)
  qed
  have calls_any: "length (freshness_calls (snd (run_freshness_guardrail t name guardrails tool now stored_at)))
      \<le> length (freshness_calls t) + 1" for t tool now stored_at
  proof (cases "cache_live t name ttl now")
    case True
    then show ?thesis by (simp add: hit_any)
  next
    case False
    from miss [where s = t and now = now and tool = tool and stored_at = stored_at] False
    show ?thesis unfolding ttl_def by auto
  qed
  have A: "length (freshness_calls (snd second)) \<le> length (freshness_calls s) + 1"
    if "now_a \<le> stored_a" "now_b - now_a < of_int ttl"
  proof (cases "cache_live s name ttl now_a")
    case True
    then have "snd first = s" unfolding first_def by (rule hit_any)
    with calls_any [of s tool_b now_b stored_b] show ?thesis by (simp add: second_def)
  next
    case False
    from miss1 [OF False] obtain res where
      st: "snd first = s\<lparr>freshness_calls := freshness_calls s @ [p],
                          freshness_cache := (freshness_cache s)(name \<mapsto> (stored_a, res))\<rparr>"
      by blast
    from that have "now_b - stored_a < of_int ttl" by simp
    then have "cache_live (snd first) name ttl now_b" by (simp add: st cache_live_def)
    then have "snd second = snd first" unfolding second_def by (rule hit_any)
    then show ?thesis by (simp add: st)
  qed
  have B: "freshness_calls (snd first) = freshness_calls s @ [p]
      \<and> (now_b - stored_a < of_int ttl \<longrightarrow>
            snd second = snd first
          \<and> ((\<exists>e. tool_a p = Invalid_json e \<or> tool_a p = Reply (Freshness_error e)) \<longrightarrow>
                \<not> ok (fst first) \<and> \<not> ok (fst second))
          \<and> (ok (fst first) \<longrightarrow> ok (fst second)))
      \<and> (of_int ttl \<le> now_b - stored_a \<longrightarrow> freshness_calls (snd second) = freshness_calls s @ [p, p])"
    if cold: "\<not> cache_live s name ttl now_a"
  proof -
    from miss1 [OF cold] obtain res where
      st: "snd first = s\<lparr>freshness_calls := freshness_calls s @ [p],
                          freshness_cache := (freshness_cache s)(name \<mapsto> (stored_a, res))\<rparr>"
      and err: "(\<exists>e. tool_a p = Invalid_json e \<or> tool_a p = Reply (Freshness_error e))
             \<longrightarrow> (\<exists>e. res = Freshness_error e) \<and> \<not> ok (fst first)"
      and good: "ok (fst first) \<longrightarrow> (\<exists>x. res = Latest x)"
      by blast
    have entry: "freshness_cache (snd first) name = Some (stored_a, res)" by (simp add: st)
    have within: "snd second = snd first
          \<and> ((\<exists>e. tool_a p = Invalid_json e \<or> tool_a p = Reply (Freshness_error e)) \<longrightarrow>
                \<not> ok (fst first) \<and> \<not> ok (fst second))
          \<and> (ok (fst first) \<longrightarrow> ok (fst second))"
      if "now_b - stored_a < of_int ttl"
    proof -
      from hit [OF entry, where now = now_b and tool = tool_b and stored_at = stored_b] that
      have sec: "second = (case res of Freshness_error e \<Rightarrow> failure e | Latest x \<Rightarrow> success, snd first)"
        by (simp add: second_def ttl_def)
      with err good show ?thesis
        by (auto simp: success_def failure_def split: freshness_reply.splits)
    qed
    have beyond: "freshness_calls (snd second) = freshness_calls s @ [p, p]"
      if "of_int ttl \<le> now_b - stored_a"
    proof -
      from that have "\<not> cache_live (snd first) name ttl now_b"
        by (simp add: cache_live_def entry)
      from miss [where s = "snd first" and now = now_b and tool = tool_b and stored_at = stored_b] this
      have "freshness_calls (snd second) = freshness_calls (snd first) @ [p]"
        unfolding second_def p_def ttl_def by auto
      then show ?thesis by (simp add: st)
    qed
    from st within beyond show ?thesis by simp
  qed
  have D: "null_rate_calls (snd (run_null_rate_guardrail
              (snd (run_null_rate_guardrail s name nr_guardrails nr_tool_a)) name nr_guardrails nr_tool_b))
              = null_rate_calls s @ [payload_of check, payload_of check]"
    if "(nr_guardrails name = Some (Single check) \<or> nr_guardrails name = Some (Many [check]))
        \<and> complete_check check" for check
  proof -
    from that have c: "nr_guardrails name = Some (Single check) \<or> nr_guardrails name = Some (Many [check])"
      and cc: "complete_check check" by simp_all
    note one = null_rate_single_call [where guardrails = nr_guardrails and name = name and check = check,
        OF c cc]
    show ?thesis
      by (simp only: one append_assoc append_Cons append_Nil)
  qed
  define cs where "cs = complete_checks nr_guardrails name"
  define nr_first where "nr_first = run_null_rate_guardrail s name nr_guardrails nr_tool_a"
  define nr_second where "nr_second = run_null_rate_guardrail (snd nr_first) name nr_guardrails nr_tool_b"
  have n1: "null_rate_calls (snd nr_first) = null_rate_calls s @ map payload_of (invoked nr_tool_a cs)"
    and ok1: "ok (fst nr_first) \<longleftrightarrow> list_all (check_passes nr_tool_a) cs"
    using null_rate_guardrail_calls [of s name nr_guardrails nr_tool_a]
    by (simp_all add: nr_first_def cs_def)
  have n2: "null_rate_calls (snd nr_second)
      = null_rate_calls (snd nr_first) @ map payload_of (invoked nr_tool_b cs)"
    and ok2: "ok (fst nr_second) \<longleftrightarrow> list_all (check_passes nr_tool_b) cs"
    using null_rate_guardrail_calls [of "snd nr_first" name nr_guardrails nr_tool_b]
    by (simp_all add: nr_second_def cs_def)
  have E: "null_rate_calls (snd nr_second)
      = null_rate_calls s @ map payload_of (invoked nr_tool_a cs) @ map payload_of (invoked nr_tool_b cs)"
    by (simp add: n1 n2)
  have F: "length (null_rate_calls s) + 2 \<le> length (null_rate_calls (snd nr_second))" if "cs \<noteq> []"
  proof -
    from that have "invoked nr_tool_a cs \<noteq> []" "invoked nr_tool_b cs \<noteq> []"
      by (simp_all add: invoked_nonempty)
    then have "1 \<le> length (invoked nr_tool_a cs)" "1 \<le> length (invoked nr_tool_b cs)"
      by (simp_all add: Suc_leI)
    then show ?thesis by (simp add: E)
  qed
  have G: "null_rate_calls (snd nr_second) = null_rate_calls s @ map payload_of cs @ map payload_of cs"
    if "ok (fst nr_first) \<and> ok (fst nr_second)"
    using that by (simp add: E ok1 ok2 invoked_all_pass)
  from A B D E F G ok2 show ?thesis
    unfolding first_def second_def p_def ttl_def cs_def nr_first_def nr_second_def by blast
qed

theorem freshness_verdict_is_cached_witness:
  "freshness example_config ''logistics''
     = Some \<lparr>fr_table = Some ''shipments'', fr_timestamp_column = Some ''updated_at'', fr_ttl_seconds = None\<rparr>
   \<and> \<not> ok (fst (run_freshness_guardrail initial_supervisor ''logistics'' (freshness example_config)
                stale_tool 0 1))
   \<and> \<not> ok (fst (run_freshness_guardrail
                (snd (run_freshness_guardrail initial_supervisor ''logistics'' (freshness example_config)
                        stale_tool 0 1))
                ''logistics'' (freshness example_config) fresh_tool 100 101))
   \<and> length (freshness_calls (snd (run_freshness_guardrail
                (snd (run_freshness_guardrail initial_supervisor ''logistics'' (freshness example_config)
                        stale_tool 0 1))
                ''logistics'' (freshness example_config) fresh_tool 100 101))) \<le> 1
   \<and> freshness_calls (snd (run_freshness_guardrail
                (snd (run_freshness_guardrail initial_supervisor ''logistics'' (freshness example_config)
                        stale_tool 0 1))
                ''logistics'' (freshness example_config) fresh_tool 100 101))
       = [(Some ''shipments'', Some ''updated_at'')]
   \<and> freshness_calls (snd (run_freshness_guardrail
                (snd (run_freshness_guardrail initial_supervisor ''logistics'' (freshness example_config)
                        stale_tool 0 1))
                ''logistics'' (freshness example_config) fresh_tool 301 302))
       = [(Some ''shipments'', Some ''updated_at''), (Some ''shipments'', Some ''updated_at'')]
   \<and> null_rate_calls (snd (run_null_rate_guardrail
                (snd (run_null_rate_guardrail initial_supervisor ''logistics'' (null_rate example_config)
                        low_rate_tool))
                ''logistics'' (null_rate example_config) low_rate_tool))
       = [payload_of example_check, payload_of example_check]
   \<and> null_rate_calls (snd (run_null_rate_guardrail
                (snd (run_null_rate_guardrail initial_supervisor ''logistics'' two_checks high_rate_tool))
                ''logistics'' two_checks low_rate_tool))
       = [payload_of example_check, payload_of example_check, payload_of strict_check]
   \<and> \<not> ok (fst (run_null_rate_guardrail
                (snd (run_null_rate_guardrail initial_supervisor ''logistics'' two_checks high_rate_tool))
                ''logistics'' two_checks low_rate_tool))"
proof -
  let ?fc = "\<lparr>fr_table = Some ''shipments'', fr_timestamp_column = Some ''updated_at'', fr_ttl_seconds = None\<rparr>"
  have cfg: "freshness example_config ''logistics'' = Some ?fc"
    by (simp add: example_config_def)
  have complete: "complete_freshness ?fc"
    by (simp add: complete_freshness_def truthy_def)
  have ttl: "ttl_of ?fc = 300" by (simp add: ttl_of_def)
  have cold: "\<not> cache_live initial_supervisor ''logistics'' (ttl_of ?fc) 0"
    by (simp add: cache_live_def initial_supervisor_def)
  have err: "\<exists>e. stale_tool (fr_table ?fc, fr_timestamp_column ?fc) = Invalid_json e
      \<or> stale_tool (fr_table ?fc, fr_timestamp_column ?fc) = Reply (Freshness_error e)"
    by (simp add: stale_tool_def)
  have nr: "(null_rate example_config ''logistics'' = Some (Single example_check)
      \<or> null_rate example_config ''logistics'' = Some (Many [example_check]))
      \<and> complete_check example_check"
    by (simp add: example_config_def complete_check_def example_check_def truthy_def)
  have no_calls: "freshness_calls initial_supervisor = []" "null_rate_calls initial_supervisor = []"
    by (simp_all add: initial_supervisor_def)
  note thm1 = freshness_verdict_is_cached [where guardrails = "freshness example_config"
      and name = "''logistics''" and fc = ?fc and s = initial_supervisor and tool_a = stale_tool
      and tool_b = fresh_tool and now_a = 0 and stored_a = 1 and now_b = 100 and stored_b = 101
      and nr_guardrails = "null_rate example_config" and nr_tool_a = low_rate_tool
      and nr_tool_b = low_rate_tool, OF cfg complete]
  note thm2 = freshness_verdict_is_cached [where guardrails = "freshness example_config"
      and name = "''logistics''" and fc = ?fc and s = initial_supervisor and tool_a = stale_tool
      and tool_b = fresh_tool and now_a = 0 and stored_a = 1 and now_b = 301 and stored_b = 302
      and nr_guardrails = "null_rate example_config" and nr_tool_a = low_rate_tool
      and nr_tool_b = low_rate_tool, OF cfg complete]
  have within: "(100::rat) - 1 < of_int (ttl_of ?fc)" and beyond: "of_int (ttl_of ?fc) \<le> (301::rat) - 1"
    by (simp_all add: ttl)
  from thm1 cold within err
  have a: "\<not> ok (fst (run_freshness_guardrail initial_supervisor ''logistics'' (freshness example_config)
                stale_tool 0 1))
      \<and> \<not> ok (fst (run_freshness_guardrail
                (snd (run_freshness_guardrail initial_supervisor ''logistics'' (freshness example_config)
                        stale_tool 0 1))
                ''logistics'' (freshness example_config) fresh_tool 100 101))
      \<and> snd (run_freshness_guardrail
                (snd (run_freshness_guardrail initial_supervisor ''logistics'' (freshness example_config)
                        stale_tool 0 1))
                ''logistics'' (freshness example_config) fresh_tool 100 101)
         = snd (run_freshness_guardrail initial_supervisor ''logistics'' (freshness example_config)
                        stale_tool 0 1)
      \<and> freshness_calls (snd (run_freshness_guardrail initial_supervisor ''logistics''
            (freshness example_config) stale_tool 0 1))
         = freshness_calls initial_supervisor @ [(fr_table ?fc, fr_timestamp_column ?fc)]"
    by blast
  have near: "(0::rat) \<le> 1 \<and> (100::rat) - 0 < of_int (ttl_of ?fc)"
    by (simp add: ttl)
  from thm1 near
  have a0: "length (freshness_calls (snd (run_freshness_guardrail
                (snd (run_freshness_guardrail initial_supervisor ''logistics'' (freshness example_config)
                        stale_tool 0 1))
                ''logistics'' (freshness example_config) fresh_tool 100 101)))
       \<le> length (freshness_calls initial_supervisor) + 1"
    by blast
  from thm2 cold beyond
  have b: "freshness_calls (snd (run_freshness_guardrail
                (snd (run_freshness_guardrail initial_supervisor ''logistics'' (freshness example_config)
                        stale_tool 0 1))
                ''logistics'' (freshness example_config) fresh_tool 301 302))
       = freshness_calls initial_supervisor @ [(fr_table ?fc, fr_timestamp_column ?fc),
                                         (fr_table ?fc, fr_timestamp_column ?fc)]"
    by blast
  from thm1 nr
  have c: "null_rate_calls (snd (run_null_rate_guardrail
                (snd (run_null_rate_guardrail initial_supervisor ''logistics'' (null_rate example_config)
                        low_rate_tool))
                ''logistics'' (null_rate example_config) low_rate_tool))
       = null_rate_calls initial_supervisor @ [payload_of example_check, payload_of example_check]"
    by blast
  note thm3 = freshness_verdict_is_cached [where guardrails = "freshness example_config"
      and name = "''logistics''" and fc = ?fc and s = initial_supervisor and tool_a = stale_tool
      and tool_b = fresh_tool and now_a = 0 and stored_a = 1 and now_b = 100 and stored_b = 101
      and nr_guardrails = two_checks and nr_tool_a = high_rate_tool
      and nr_tool_b = low_rate_tool, OF cfg complete]
  have both: "complete_checks two_checks ''logistics'' = [example_check, strict_check]"
    by (simp add: complete_checks_def two_checks_def complete_check_def example_check_def
        strict_check_def truthy_def)
  have high: "invoked high_rate_tool [example_check, strict_check] = [example_check]"
    by (simp add: check_passes_def high_rate_tool_def example_check_def)
  have low: "invoked low_rate_tool [example_check, strict_check] = [example_check, strict_check]"
    by (simp add: check_passes_def low_rate_tool_def example_check_def strict_check_def)
  have strict: "\<not> list_all (check_passes low_rate_tool) [example_check, strict_check]"
    by (simp add: check_passes_def low_rate_tool_def example_check_def strict_check_def)
  from thm3
  have d: "null_rate_calls (snd (run_null_rate_guardrail
                (snd (run_null_rate_guardrail initial_supervisor ''logistics'' two_checks high_rate_tool))
                ''logistics'' two_checks low_rate_tool))
       = null_rate_calls initial_supervisor
           @ map payload_of (invoked high_rate_tool (complete_checks two_checks ''logistics''))
           @ map payload_of (invoked low_rate_tool (complete_checks two_checks ''logistics''))"
    and e: "ok (fst (run_null_rate_guardrail
                (snd (run_null_rate_guardrail initial_supervisor ''logistics'' two_checks high_rate_tool))
                ''logistics'' two_checks low_rate_tool))
       \<longleftrightarrow> list_all (check_passes low_rate_tool) (complete_checks two_checks ''logistics'')"
    by blast+
  from d have d': "null_rate_calls (snd (run_null_rate_guardrail
                (snd (run_null_rate_guardrail initial_supervisor ''logistics'' two_checks high_rate_tool))
                ''logistics'' two_checks low_rate_tool))
       = [payload_of example_check, payload_of example_check, payload_of strict_check]"
    by (simp only: both high low no_calls list.map append_Nil append_Cons)
  from e strict have e': "\<not> ok (fst (run_null_rate_guardrail
                (snd (run_null_rate_guardrail initial_supervisor ''logistics'' two_checks high_rate_tool))
                ''logistics'' two_checks low_rate_tool))"
    by (simp add: both)
  from cfg a a0 b c d' e' show ?thesis by (simp add: no_calls)
qed

text \<open>
  The claim as the spec words it covers the null-rate guardrail too. Two guardrail runs
  one second apart, with the contracts enabled: the null-rate tool is called twice.
  And two freshness checks more than the time to live apart need not call the tool
  twice: of three checks at 0, 200 and 600 seconds with a time to live of 300, the
  second is answered from the cache, so the second and the third, 400 seconds apart,
  call the tool once between them.
\<close>

theorem cache_covers_freshness_only:
  "null_rate_calls (snd (run_guardrails True
       (snd (run_guardrails True initial_supervisor ''logistics'' example_config fresh_tool low_rate_tool 0 0))
       ''logistics'' example_config fresh_tool low_rate_tool 1 1))
     = [(Some ''shipments_items'', Some ''sku'', None), (Some ''shipments_items'', Some ''sku'', None)]
   \<and> ttl_of \<lparr>fr_table = Some ''shipments'', fr_timestamp_column = Some ''updated_at'', fr_ttl_seconds = None\<rparr> = 300
   \<and> ok (fst (run_guardrails True
       (snd (run_guardrails True initial_supervisor ''logistics'' example_config fresh_tool low_rate_tool 0 0))
       ''logistics'' example_config fresh_tool low_rate_tool 1 1))
   \<and> length (freshness_calls
         (snd (run_freshness_guardrail initial_supervisor ''logistics'' (freshness example_config) fresh_tool 0 0)))
       = 1
   \<and> length (freshness_calls
         (snd (run_freshness_guardrail
           (snd (run_freshness_guardrail
             (snd (run_freshness_guardrail initial_supervisor ''logistics'' (freshness example_config) fresh_tool 0 0))
             ''logistics'' (freshness example_config) fresh_tool 200 200))
           ''logistics'' (freshness example_config) fresh_tool 600 600)))
       = 2"
  by (simp add: run_guardrails_def run_freshness_guardrail_def run_null_rate_guardrail_def
      example_config_def example_check_def initial_supervisor_def fresh_tool_def low_rate_tool_def
      no_freshness_keys_def truthy_def ttl_of_def success_def failure_def Let_def)


section \<open>Properties of the workflow executor\<close>

text \<open>
  The threshold of the logger enters \<open>route_query\<close> only through the three tests of
  the levels \<open>INFO\<close>, \<open>WARNING\<close> and \<open>ERROR\<close>, so every threshold behaves as one of
  20, 30, 40 and 41 does.
\<close>

lemma level_tests:
  "is_enabled_for threshold INFO \<Longrightarrow> is_enabled_for threshold WARNING"
  "is_enabled_for threshold WARNING \<Longrightarrow> is_enabled_for threshold ERROR"
  by (simp_all add: is_enabled_for_def INFO_def WARNING_def ERROR_def)

lemma route_query_threshold:
  assumes "is_enabled_for a INFO = is_enabled_for b INFO"
    and "is_enabled_for a WARNING = is_enabled_for b WARNING"
    and "is_enabled_for a ERROR = is_enabled_for b ERROR"
  shows "route_query (sys\<lparr>sys_log_level := a\<rparr>) env s module_arg query workflow_run_id
       = route_query (sys\<lparr>sys_log_level := b\<rparr>) env s module_arg query workflow_run_id"
  unfolding route_query_def finish_response_def log_with_module_def
  by (simp add: assms
      cong: sum.case_cong prod.case_cong py_error.case_cong handler_outcome.case_cong option.case_cong if_cong)

lemma execute_steps_threshold:
  assumes "is_enabled_for a INFO = is_enabled_for b INFO"
    and "is_enabled_for a WARNING = is_enabled_for b WARNING"
    and "is_enabled_for a ERROR = is_enabled_for b ERROR"
  shows "execute_steps (sys\<lparr>sys_log_level := a\<rparr>) envs workflow_run_id trace_id s index steps results
       = execute_steps (sys\<lparr>sys_log_level := b\<rparr>) envs workflow_run_id trace_id s index steps results"
proof (induction steps arbitrary: s index results)
  case Nil
  show ?case by simp
next
  case (Cons step steps)
  show ?case
    by (simp add: route_query_threshold [OF assms] Cons.IH cong: prod.case_cong sum.case_cong)
qed

lemma example_workflow_threshold:
  assumes "is_enabled_for a INFO = is_enabled_for b INFO"
    and "is_enabled_for a WARNING = is_enabled_for b WARNING"
    and "is_enabled_for a ERROR = is_enabled_for b ERROR"
  shows "execute_workflow (example_system a) envs s steps workflow_run_id trace_id
       = execute_workflow (example_system b) envs s steps workflow_run_id trace_id"
proof -
  have "example_system a = (example_system 0)\<lparr>sys_log_level := a\<rparr>"
    "example_system b = (example_system 0)\<lparr>sys_log_level := b\<rparr>"
    by (simp_all add: example_system_def)
  then show ?thesis
    by (simp add: execute_workflow_def execute_steps_threshold [OF assms])
qed

lemma threshold_classes:
  obtains "is_enabled_for threshold INFO = is_enabled_for 20 INFO"
      "is_enabled_for threshold WARNING = is_enabled_for 20 WARNING"
      "is_enabled_for threshold ERROR = is_enabled_for 20 ERROR"
      "is_enabled_for threshold INFO"
  | "is_enabled_for threshold INFO = is_enabled_for 30 INFO"
      "is_enabled_for threshold WARNING = is_enabled_for 30 WARNING"
      "is_enabled_for threshold ERROR = is_enabled_for 30 ERROR"
      "\<not> is_enabled_for threshold INFO" "is_enabled_for threshold WARNING"
  | "is_enabled_for threshold INFO = is_enabled_for 40 INFO"
      "is_enabled_for threshold WARNING = is_enabled_for 40 WARNING"
      "is_enabled_for threshold ERROR = is_enabled_for 40 ERROR"
      "\<not> is_enabled_for threshold INFO" "\<not> is_enabled_for threshold WARNING" "is_enabled_for threshold ERROR"
  | "is_enabled_for threshold INFO = is_enabled_for 41 INFO"
      "is_enabled_for threshold WARNING = is_enabled_for 41 WARNING"
      "is_enabled_for threshold ERROR = is_enabled_for 41 ERROR"
      "\<not> is_enabled_for threshold ERROR"
proof -
  consider "threshold \<le> 20" | "20 < threshold" "threshold \<le> 30"
    | "30 < threshold" "threshold \<le> 40" | "40 < threshold"
    by linarith
  then show ?thesis
  proof cases
    case 1
    then show ?thesis
      by (intro that(1)) (simp_all add: is_enabled_for_def INFO_def WARNING_def ERROR_def)
  next
    case 2
    then show ?thesis
      by (intro that(2)) (simp_all add: is_enabled_for_def INFO_def WARNING_def ERROR_def)
  next
    case 3
    then show ?thesis
      by (intro that(3)) (simp_all add: is_enabled_for_def INFO_def WARNING_def ERROR_def)
  next
    case 4
    then show ?thesis
      by (intro that(4)) (simp_all add: is_enabled_for_def INFO_def WARNING_def ERROR_def)
  qed
qed

lemma traced_workflow_at_20:
  "fst (execute_workflow (example_system 20) (env_with tracing_handler) initial_supervisor three_steps None None)
     = Inl module_key_error"
  by code_simp

lemma traced_workflow_at_30:
  "fst (execute_workflow (example_system 30) (env_with tracing_handler) initial_supervisor three_steps None None)
     = Inl (AttributeError (quoted ''dict'' @ '' object has no attribute '' @ quoted ''model_dump''))"
  by code_simp

lemma traced_workflow_at_40:
  "fst (execute_workflow (example_system 40) (env_with tracing_handler) initial_supervisor three_steps None None)
     = Inl (AttributeError (quoted ''dict'' @ '' object has no attribute '' @ quoted ''model_dump''))"
  by code_simp

lemma traced_workflow_at_41:
  "fst (execute_workflow (example_system 41) (env_with tracing_handler) initial_supervisor three_steps None None)
     = Inl (AttributeError (quoted ''dict'' @ '' object has no attribute '' @ quoted ''model_dump''))"
  by code_simp

text \<open>
  C5 asks for one result entry for each step, in step order, whatever happens inside a
  step. The code does not deliver that on this input: three steps, all modules
  registered and enabled, and the agent of the second step returns an
  \<open>AgentTaskOutput\<close> whose \<open>tool_traces\<close> hold one plain dictionary, as the annotation of
  the dataclass has it. Whatever the threshold of the logger, \<open>execute_workflow\<close>
  raises and returns no entries. When the logger is enabled for \<open>INFO\<close>, the first
  logger call of the first step raises \<open>KeyError\<close>. Otherwise the first step returns,
  and in the second \<open>route_query\<close> calls \<open>model_dump\<close> on the dictionary outside its
  \<open>try\<close>; the \<open>AttributeError\<close> leaves \<open>execute_workflow\<close>, and the third step never
  runs.
\<close>

theorem plain_dict_trace_aborts_workflow:
  "fst (execute_workflow (example_system threshold) (env_with tracing_handler) initial_supervisor
          three_steps None None)
     = Inl (if is_enabled_for threshold INFO then module_key_error
            else AttributeError (quoted ''dict'' @ '' object has no attribute '' @ quoted ''model_dump''))"
proof (cases threshold rule: threshold_classes)
  case 1
  from example_workflow_threshold [OF 1(1-3)] traced_workflow_at_20 1(4) show ?thesis by simp
next
  case 2
  from example_workflow_threshold [OF 2(1-3)] traced_workflow_at_30 2(4) show ?thesis by simp
next
  case 3
  from example_workflow_threshold [OF 3(1-3)] traced_workflow_at_40 3(4) show ?thesis by simp
next
  case 4
  from 4(4) have "\<not> is_enabled_for threshold INFO" using level_tests by blast
  with example_workflow_threshold [OF 4(1-3)] traced_workflow_at_41 show ?thesis by simp
qed

text \<open>
  The same workflow when the logistics agent raises instead. When the logger is
  enabled for \<open>ERROR\<close> (as it is when nothing is configured), the logger call of the
  \<open>except\<close> clause raises and the workflow returns no entries; when it is not, there
  are three entries, the second with an \<open>error\<close> field, the first and third
  untouched.
\<close>

lemma raising_workflow_at_20:
  "fst (execute_workflow (example_system 20) (env_with raising_handler) initial_supervisor three_steps None None)
     = Inl module_key_error"
  by code_simp

lemma raising_workflow_at_30:
  "fst (execute_workflow (example_system 30) (env_with raising_handler) initial_supervisor three_steps None None)
     = Inl module_key_error"
  by code_simp

lemma raising_workflow_at_40:
  "fst (execute_workflow (example_system 40) (env_with raising_handler) initial_supervisor three_steps None None)
     = Inl module_key_error"
  by code_simp

lemma raising_workflow_at_41:
  "fst (execute_workflow (example_system 41) (env_with raising_handler) initial_supervisor three_steps None None)
     = Inr [(Some ''sales'', [(''answer'', PStr ''revenue by customer''), (''_module'', PStr ''sales''),
                              (''_session_id'', PStr ''default''), (''_trace_id'', PStr ''N/A'')]),
            (Some ''logistics'', [(''error'', PStr ''connection lost'')]),
            (Some ''accounting'', [(''answer'', PStr ''invoice totals''), (''_module'', PStr ''accounting''),
                              (''_session_id'', PStr ''default''), (''_trace_id'', PStr ''N/A'')])]"
  by code_simp

lemma raising_step_and_the_logger:
  "fst (execute_workflow (example_system threshold) (env_with raising_handler) initial_supervisor
          three_steps None None)
     = (if is_enabled_for threshold ERROR then Inl module_key_error
        else Inr [(Some ''sales'', [(''answer'', PStr ''revenue by customer''), (''_module'', PStr ''sales''),
                              (''_session_id'', PStr ''default''), (''_trace_id'', PStr ''N/A'')]),
            (Some ''logistics'', [(''error'', PStr ''connection lost'')]),
            (Some ''accounting'', [(''answer'', PStr ''invoice totals''), (''_module'', PStr ''accounting''),
                              (''_session_id'', PStr ''default''), (''_trace_id'', PStr ''N/A'')])])"
proof (cases threshold rule: threshold_classes)
  case 1
  from 1(4) have "is_enabled_for threshold ERROR" using level_tests by blast
  with example_workflow_threshold [OF 1(1-3)] raising_workflow_at_20 show ?thesis by simp
next
  case 2
  from 2(5) have "is_enabled_for threshold ERROR" using level_tests by blast
  with example_workflow_threshold [OF 2(1-3)] raising_workflow_at_30 show ?thesis by simp
next
  case 3
  from example_workflow_threshold [OF 3(1-3)] raising_workflow_at_40 3(6) show ?thesis by simp
next
  case 4
  from example_workflow_threshold [OF 4(1-3)] raising_workflow_at_41 4(4) show ?thesis by simp
qed

lemma model_dump_all_models:
  "list_all (\<lambda>item. case item of Dict_item _ \<Rightarrow> False | Model_item _ \<Rightarrow> True) items
     \<Longrightarrow> \<exists>vs. model_dump_all items = Inr vs"
  by (induction items rule: model_dump_all.induct) auto

lemma build_response_returns:
  assumes "dumpable (Handler_output output)"
  shows "\<exists>response. build_response output requested resolved trace_id = Inr response"
proof -
  from assms obtain ts where ts: "model_dump_all (out_tool_traces output) = Inr ts"
    using model_dump_all_models [of "out_tool_traces output"] by auto
  from assms obtain hs where hs: "model_dump_all (out_handoffs output) = Inr hs"
    using model_dump_all_models [of "out_handoffs output"] by auto
  show ?thesis
    by (simp add: build_response_def Let_def ts hs)
qed

lemma resolve_module_returns:
  assumes "factories r \<noteq> []"
  shows "\<exists>m. resolve_module r flags requested input = Inr m"
proof -
  from assms have "\<exists>m. default_module r = Inr m"
    by (auto simp: default_module_def get_available_modules_def)
  then show ?thesis
    by (auto simp: resolve_module_def Let_def split: option.splits)
qed

lemma quiet_logger:
  assumes "\<not> is_enabled_for threshold ERROR"
  shows "log_with_module threshold INFO v = Inr v" "log_with_module threshold WARNING v = Inr v"
    "log_with_module threshold ERROR v = Inr v" "finish_response threshold (Inr response) = Inr response"
    "\<not> is_enabled_for threshold INFO"
  using assms level_tests [of threshold]
  by (auto simp: log_with_module_def finish_response_def split: option.splits)

lemma route_query_returns:
  assumes reg: "factories (sys_registry sys) \<noteq> []"
    and quiet: "\<not> is_enabled_for (sys_log_level sys) ERROR"
    and dump: "\<And>name inp. dumpable (env_handler env name inp)"
  shows "\<exists>response. fst (route_query sys env s module_arg query workflow_run_id) = Inr response"
proof -
  obtain m where m: "resolve_module (sys_registry sys) (sys_flags sys)
      (Some (lower (strip (or_empty module_arg)))) (q_input query) = Inr m"
    using resolve_module_returns [OF reg] by blast
  note q = quiet_logger [OF quiet]
  have plain: "\<exists>response. finish_response (sys_log_level sys) (build_response
       \<lparr>out_result = raw, out_session_id = sid, out_module = m, out_metrics = None,
        out_context = \<lparr>summary = None, ctx_metadata = []\<rparr>, out_tool_traces = [], out_handoffs = []\<rparr>
       requested resolved trace_id) = Inr response" for raw sid requested resolved trace_id
  proof -
    have "\<exists>response. build_response
       \<lparr>out_result = raw, out_session_id = sid, out_module = m, out_metrics = None,
        out_context = \<lparr>summary = None, ctx_metadata = []\<rparr>, out_tool_traces = [], out_handoffs = []\<rparr>
       requested resolved trace_id = Inr response"
      by (rule build_response_returns) simp
    then show ?thesis by (auto simp: q)
  qed
  have out: "\<exists>response. finish_response (sys_log_level sys)
        (build_response outp requested resolved trace_id) = Inr response"
    if "env_handler env name inp = Handler_output outp" for outp name inp requested resolved trace_id
  proof -
    have "\<exists>response. build_response outp requested resolved trace_id = Inr response"
      using dump [of name inp] that by (intro build_response_returns) simp
    then show ?thesis by (auto simp: q)
  qed
  show ?thesis
    unfolding route_query_def Let_def m
    using plain out
    by (auto split: prod.splits sum.splits handler_outcome.splits py_error.splits
        simp: get_agent_def q from_workflow_def Let_def)
qed

text \<open>
  What does hold in general when the logger is not enabled for \<open>ERROR\<close> (so for no
  level \<open>route_query\<close> logs at). With at least one module registered and handler
  outcomes whose traces and handoffs can be dumped, every step yields an entry under
  its own module name, in step order, and the loop goes on after a step that failed.
\<close>

lemma execute_steps_entries:
  assumes reg: "factories (sys_registry sys) \<noteq> []"
    and quiet: "\<not> is_enabled_for (sys_log_level sys) ERROR"
    and dump: "\<And>i name inp. dumpable (env_handler (envs i) name inp)"
  shows "\<exists>rs. fst (execute_steps sys envs workflow_run_id trace_id s index steps results) = Inr rs
     \<and> length rs = length results + length steps
     \<and> map fst rs = map fst results @ map step_module steps"
proof (induction steps arbitrary: s index results)
  case Nil
  then show ?case by simp
next
  case (Cons step steps)
  define payload where "payload = \<lparr>q_input = step_input step,
      q_session_id = Some (if step_session_id step = None then ''default'' else or_empty (step_session_id step)),
      q_trace_id = trace_id\<rparr>"
  from route_query_returns [OF reg quiet dump, of index s "step_module step" payload workflow_run_id]
  obtain res s1 where rq: "route_query sys (envs index) s (step_module step) payload workflow_run_id = (Inr res, s1)"
    by (metis fst_conv surj_pair)
  from Cons.IH [of s1 "Suc index" "results @ [(step_module step, res)]"]
  obtain rs where "fst (execute_steps sys envs workflow_run_id trace_id s1 (Suc index) steps
        (results @ [(step_module step, res)])) = Inr rs"
    "length rs = length (results @ [(step_module step, res)]) + length steps"
    "map fst rs = map fst (results @ [(step_module step, res)]) @ map step_module steps"
    by blast
  with rq show ?case by (simp add: payload_def [symmetric])
qed

text \<open>
  With the logger not enabled for \<open>ERROR\<close>, a step whose module is disabled, whose
  guardrail fails, whose prompt is blank or whose handler raises yields a response
  with an \<open>error\<close> field.
\<close>

lemma route_query_error_responses:
  assumes res: "resolve_module (sys_registry sys) (sys_flags sys)
      (Some (lower (strip (or_empty module_arg)))) (q_input query) = Inr m"
    and quiet: "\<not> is_enabled_for (sys_log_level sys) ERROR"
  shows "(\<not> is_module_enabled (sys_registry sys) (sys_flags sys) m
          \<or> \<not> ok (fst (run_guardrails (sys_contracts_enabled sys) s m (sys_guardrails sys)
                    (env_freshness_tool env) (env_null_rate_tool env) (env_now env) (env_stored_at env)))
          \<or> strip (or_empty (q_input query)) = []
          \<or> (\<forall>inp. \<exists>msg. env_handler env m inp = Handler_error msg \<or> env_handler env m inp = Handler_value_error msg))
     \<longrightarrow> (\<exists>response. fst (route_query sys env s module_arg query workflow_run_id) = Inr response
            \<and> has_error_field response)"
proof
  assume a: "\<not> is_module_enabled (sys_registry sys) (sys_flags sys) m
          \<or> \<not> ok (fst (run_guardrails (sys_contracts_enabled sys) s m (sys_guardrails sys)
                    (env_freshness_tool env) (env_null_rate_tool env) (env_now env) (env_stored_at env)))
          \<or> strip (or_empty (q_input query)) = []
          \<or> (\<forall>inp. \<exists>msg. env_handler env m inp = Handler_error msg \<or> env_handler env m inp = Handler_value_error msg)"
  note q = quiet_logger [OF quiet]
  obtain g s1 where g: "run_guardrails (sys_contracts_enabled sys) s m (sys_guardrails sys)
                    (env_freshness_tool env) (env_null_rate_tool env) (env_now env) (env_stored_at env) = (g, s1)"
    by (cases "run_guardrails (sys_contracts_enabled sys) s m (sys_guardrails sys)
                    (env_freshness_tool env) (env_null_rate_tool env) (env_now env) (env_stored_at env)")
  show "\<exists>response. fst (route_query sys env s module_arg query workflow_run_id) = Inr response
            \<and> has_error_field response"
  proof (cases "is_module_enabled (sys_registry sys) (sys_flags sys) m")
    case False
    then show ?thesis
      by (simp add: route_query_def Let_def res has_error_field_def dict_get_def error_response_def q)
  next
    case en: True
    show ?thesis
    proof (cases "ok g")
      case False
      with en show ?thesis
        by (simp add: route_query_def Let_def res g has_error_field_def dict_get_def q)
    next
      case okg: True
      show ?thesis
      proof (cases "strip (or_empty (q_input query)) = []")
        case True
        with en okg show ?thesis
          by (simp add: route_query_def Let_def res g has_error_field_def dict_get_def
              error_response_def from_workflow_def q)
      next
        case False
        with a en okg g have raises: "\<forall>inp. \<exists>msg. env_handler env m inp = Handler_error msg
            \<or> env_handler env m inp = Handler_value_error msg" by simp
        obtain inp where inp: "from_workflow m (q_input query) (q_session_id query) = Inr inp"
          using False by (simp add: from_workflow_def Let_def)
        from raises obtain msg where "env_handler env m inp = Handler_error msg
            \<or> env_handler env m inp = Handler_value_error msg" by blast
        with en okg inp show ?thesis
          by (auto simp: route_query_def Let_def res g has_error_field_def dict_get_def
              error_response_def get_agent_def q split: sum.splits py_error.splits)
      qed
    qed
  qed
qed

text \<open>
  With the logger enabled, the same steps raise instead: every query when the level
  \<open>INFO\<close> is enabled; a disabled module or a failed guardrail when \<open>WARNING\<close> is; a
  blank prompt or a raising handler (module enabled, guardrail passed) when \<open>ERROR\<close>
  is.
\<close>

lemma logger_call_leaves_route_query:
  assumes res: "resolve_module (sys_registry sys) (sys_flags sys)
      (Some (lower (strip (or_empty module_arg)))) (q_input query) = Inr m"
  shows "(is_enabled_for (sys_log_level sys) INFO \<longrightarrow>
            fst (route_query sys env s module_arg query workflow_run_id) = Inl module_key_error)
     \<and> (is_enabled_for (sys_log_level sys) WARNING
          \<and> (\<not> is_module_enabled (sys_registry sys) (sys_flags sys) m
              \<or> \<not> ok (fst (run_guardrails (sys_contracts_enabled sys) s m (sys_guardrails sys)
                    (env_freshness_tool env) (env_null_rate_tool env) (env_now env) (env_stored_at env)))) \<longrightarrow>
            fst (route_query sys env s module_arg query workflow_run_id) = Inl module_key_error)
     \<and> (is_enabled_for (sys_log_level sys) ERROR
          \<and> is_module_enabled (sys_registry sys) (sys_flags sys) m
          \<and> ok (fst (run_guardrails (sys_contracts_enabled sys) s m (sys_guardrails sys)
                    (env_freshness_tool env) (env_null_rate_tool env) (env_now env) (env_stored_at env)))
          \<and> (strip (or_empty (q_input query)) = []
              \<or> (\<forall>inp. \<exists>msg. env_handler env m inp = Handler_error msg
                    \<or> env_handler env m inp = Handler_value_error msg)) \<longrightarrow>
            fst (route_query sys env s module_arg query workflow_run_id) = Inl module_key_error)"
proof -
  obtain g s1 where g: "run_guardrails (sys_contracts_enabled sys) s m (sys_guardrails sys)
                    (env_freshness_tool env) (env_null_rate_tool env) (env_now env) (env_stored_at env) = (g, s1)"
    by (cases "run_guardrails (sys_contracts_enabled sys) s m (sys_guardrails sys)
                    (env_freshness_tool env) (env_null_rate_tool env) (env_now env) (env_stored_at env)")
  have one: "fst (route_query sys env s module_arg query workflow_run_id) = Inl module_key_error"
    if "is_enabled_for (sys_log_level sys) INFO"
    using that by (simp add: route_query_def Let_def res)
  have two: "fst (route_query sys env s module_arg query workflow_run_id) = Inl module_key_error"
    if "is_enabled_for (sys_log_level sys) WARNING"
      and "\<not> is_module_enabled (sys_registry sys) (sys_flags sys) m \<or> \<not> ok g"
    using that by (auto simp: route_query_def Let_def res g log_with_module_def)
  have three: "fst (route_query sys env s module_arg query workflow_run_id) = Inl module_key_error"
    if en: "is_enabled_for (sys_log_level sys) ERROR"
      and me: "is_module_enabled (sys_registry sys) (sys_flags sys) m" and okg: "ok g"
      and bad: "strip (or_empty (q_input query)) = []
              \<or> (\<forall>inp. \<exists>msg. env_handler env m inp = Handler_error msg
                    \<or> env_handler env m inp = Handler_value_error msg)"
  proof (cases "strip (or_empty (q_input query)) = []")
    case True
    with en me okg show ?thesis
      by (simp add: route_query_def Let_def res g log_with_module_def from_workflow_def)
  next
    case False
    with bad have raises: "\<forall>inp. \<exists>msg. env_handler env m inp = Handler_error msg
            \<or> env_handler env m inp = Handler_value_error msg" by simp
    obtain inp where inp: "from_workflow m (q_input query) (q_session_id query) = Inr inp"
      using False by (simp add: from_workflow_def Let_def)
    from raises obtain msg where "env_handler env m inp = Handler_error msg
            \<or> env_handler env m inp = Handler_value_error msg" by blast
    with en me okg inp show ?thesis
      by (auto simp: route_query_def Let_def res g log_with_module_def get_agent_def
          split: sum.splits py_error.splits)
  qed
  from one two three g show ?thesis by auto
qed

end
